theory Spec2Isabelle
  imports Main "HOL-Library.AList"
begin

section \<open>Python strings\<close>

text \<open>
  A Python \<open>str\<close> is a sequence of Unicode code points; a code point is a natural
  number. \<open>str\<close> turns an ASCII literal into its code points.
\<close>

type_synonym pystr = "nat list"

definition str :: "string \<Rightarrow> pystr" where
  "str s = map of_char s"

text \<open>
  \<open>str.lower()\<close> and the regular expression class \<open>\w\<close> read the Unicode character
  database, a table that is not part of the repository. The functions that use them take
  it as a parameter, so every theorem below holds for whatever the table says.
  \<open>ascii_ucd\<close> is the table restricted to ASCII, for evaluating concrete inputs.
\<close>

record ucd =
  str_lower :: "pystr \<Rightarrow> pystr"
  is_word :: "nat \<Rightarrow> bool"

definition ascii_lower_char :: "nat \<Rightarrow> nat" where
  "ascii_lower_char c = (if 65 \<le> c \<and> c \<le> 90 then c + 32 else c)"

definition ascii_is_word :: "nat \<Rightarrow> bool" where
  "ascii_is_word c \<longleftrightarrow> 48 \<le> c \<and> c \<le> 57 \<or> 65 \<le> c \<and> c \<le> 90 \<or> c = 95 \<or> 97 \<le> c \<and> c \<le> 122"

definition ascii_ucd :: ucd where
  "ascii_ucd = \<lparr> str_lower = map ascii_lower_char, is_word = ascii_is_word \<rparr>"

text \<open>
  \<open>str.isspace\<close> of one code point, which \<open>str.strip()\<close> and the class \<open>\s\<close> use: the
  code points with bidirectional type WS, B or S or category Zs. The set is small and is
  written out.
\<close>

definition isspace :: "nat \<Rightarrow> bool" where
  "isspace c \<longleftrightarrow>
     9 \<le> c \<and> c \<le> 13 \<or> 28 \<le> c \<and> c \<le> 32 \<or> c = 133 \<or> c = 160 \<or> c = 5760
     \<or> 8192 \<le> c \<and> c \<le> 8202 \<or> c = 8232 \<or> c = 8233 \<or> c = 8239 \<or> c = 8287 \<or> c = 12288"

definition strip :: "pystr \<Rightarrow> pystr" where
  "strip s = rev (dropWhile isspace (rev (dropWhile isspace s)))"

definition startswith :: "pystr \<Rightarrow> pystr \<Rightarrow> bool" where
  "startswith s p \<longleftrightarrow> take (length p) s = p"

definition endswith :: "pystr \<Rightarrow> pystr \<Rightarrow> bool" where
  "endswith s suffix \<longleftrightarrow> length suffix \<le> length s \<and> drop (length s - length suffix) s = suffix"

text \<open>\<open>s in t\<close> for two strings: \<open>s\<close> occurs in \<open>t\<close> at some offset.\<close>

definition is_substring :: "pystr \<Rightarrow> pystr \<Rightarrow> bool" where
  "is_substring s t \<longleftrightarrow> list_ex (\<lambda>i. take (length s) (drop i t) = s) [0 ..< Suc (length t)]"

text \<open>
  UTF-8 encodes every code point except the surrogates U+D800 to U+DFFF. A string that
  holds one (a lone surrogate, which \<open>json.load\<close> produces from an escaped U+D800) cannot
  be written to a file opened with \<open>encoding='utf-8'\<close>.
\<close>

definition encodable_char :: "nat \<Rightarrow> bool" where
  "encodable_char c \<longleftrightarrow> c < 55296 \<or> 57344 \<le> c \<and> c < 1114112"

definition encodable :: "pystr \<Rightarrow> bool" where
  "encodable s = list_all encodable_char s"

section \<open>Exceptions\<close>

text \<open>
  The exceptions that the modelled code can raise and does not catch by name. A
  \<open>json.JSONDecodeError\<close> is the result \<open>None\<close> of \<open>json_loads\<close>: both readers catch it
  where it is raised.
\<close>

datatype error =
  UnicodeDecodeError | UnicodeEncodeError | FileNotFoundError | TypeError | AttributeError

section \<open>JSON values and \<open>json.dump\<close>\<close>

text \<open>
  What \<open>json.load\<close> returns. A number is carried as its literal: Python turns it into an
  \<open>int\<close> or a \<open>float\<close>, and floating point is outside this model, so a number is written
  back as it was read, where Python may print another literal of the same number. No
  property below involves a number. An object is a \<open>dict\<close>: an association list with
  distinct keys, in insertion order.
\<close>

datatype json =
    JNull
  | JBool bool
  | JNum pystr
  | JStr pystr
  | JArr "json list"
  | JObj "(pystr \<times> json) list"

text \<open>
  \<open>json.dump(data, f, indent=2, ensure_ascii=False)\<close>. With \<open>ensure_ascii=False\<close> a string
  is written between double quotes with only the quote, the backslash and the control
  characters below U+0020 escaped (\<open>encode_basestring\<close>). With an indent, the item
  separator is a comma followed by a newline and the indentation; the key separator is
  a colon and a space; an empty list is \<open>[]\<close> and an empty dict \<open>{}\<close>.
\<close>

definition hexdigit :: "nat \<Rightarrow> nat" where
  "hexdigit d = (if d < 10 then 48 + d else 87 + d)"

definition escape_char :: "nat \<Rightarrow> pystr" where
  "escape_char c =
     (if c = 34 then [92, 34]
      else if c = 92 then [92, 92]
      else if c = 10 then [92, 110]
      else if c = 13 then [92, 114]
      else if c = 9 then [92, 116]
      else if c = 8 then [92, 98]
      else if c = 12 then [92, 102]
      else if c < 32 then [92, 117, 48, 48, hexdigit (c div 16), hexdigit (c mod 16)]
      else [c])"

definition encode_basestring :: "pystr \<Rightarrow> pystr" where
  "encode_basestring s = [34] @ concat (map escape_char s) @ [34]"

definition newline_indent :: "nat \<Rightarrow> pystr" where
  "newline_indent level = 10 # replicate (2 * level) 32"

fun join :: "pystr \<Rightarrow> pystr list \<Rightarrow> pystr" where
  "join sep [] = []"
| "join sep [x] = x"
| "join sep (x # y # ys) = x @ sep @ join sep (y # ys)"

text \<open>
  \<open>json.dump\<close> writes the text in chunks, one \<open>write\<close> for each string that the generator
  \<open>iterencode\<close> yields, and the chunks matter when a write fails. The loop over the items of
  a list yields the pending \<open>buf\<close> (the opening bracket and the indentation for the first
  item, the separator for the others) together with an item that is a string, a number,
  a truth value or \<open>null\<close>, and on its own before the chunks of an item that is a list or
  a dict. \<open>chunks\<close> is what the item itself yields.
\<close>

fun list_chunks :: "pystr \<Rightarrow> pystr \<Rightarrow> (json \<times> pystr list) list \<Rightarrow> pystr list" where
  "list_chunks buf separator [] = []"
| "list_chunks buf separator ((v, chunks) # rest) =
     (case v of
        JArr lst \<Rightarrow> buf # chunks
      | JObj dct \<Rightarrow> buf # chunks
      | _ \<Rightarrow> [buf @ concat chunks])
     @ list_chunks separator separator rest"

text \<open>
  The loop over the members of a dict yields the separator (not before the first member),
  the key, the key separator and then the chunks of the member's value.
\<close>

fun dict_chunks :: "bool \<Rightarrow> pystr \<Rightarrow> (pystr \<times> pystr list) list \<Rightarrow> pystr list" where
  "dict_chunks first item_separator [] = []"
| "dict_chunks first item_separator ((key, chunks) # rest) =
     (if first then [] else [item_separator])
     @ [encode_basestring key, [58, 32]] @ chunks
     @ dict_chunks False item_separator rest"

fun iterencode :: "nat \<Rightarrow> json \<Rightarrow> pystr list" where
  "iterencode level JNull = [str ''null'']"
| "iterencode level (JBool b) = [if b then str ''true'' else str ''false'']"
| "iterencode level (JNum lexeme) = [lexeme]"
| "iterencode level (JStr s) = [encode_basestring s]"
| "iterencode level (JArr lst) =
     (if lst = [] then [str ''[]'']
      else list_chunks ([91] @ newline_indent (level + 1)) ([44] @ newline_indent (level + 1))
             (map (\<lambda>v. (v, iterencode (level + 1) v)) lst)
           @ [newline_indent level, [93]])"
| "iterencode level (JObj dct) =
     (if dct = [] then [str ''{}'']
      else [[123], newline_indent (level + 1)]
           @ dict_chunks True ([44] @ newline_indent (level + 1))
               (map (\<lambda>(key, v). (key, iterencode (level + 1) v)) dct)
           @ [newline_indent level, [125]])"

text \<open>The whole text: the chunks one after the other.\<close>

definition json_dumps :: "json \<Rightarrow> pystr" where
  "json_dumps obj = concat (iterencode 0 obj)"

section \<open>\<open>json.load\<close>\<close>

text \<open>
  The decoder of the standard library (\<open>json.decoder\<close>, \<open>json.scanner\<close>), on the text that
  remains to be read instead of an index into it. \<open>None\<close> is \<open>json.JSONDecodeError\<close>.
  Whitespace is space, tab, line feed and carriage return. The limits of the interpreter
  are outside the model: \<open>RecursionError\<close> on a text nested deeper than the recursion
  limit, and \<open>ValueError\<close> on an integer literal of more digits than the interpreter
  converts (4300 by default).
\<close>

definition is_ws :: "nat \<Rightarrow> bool" where
  "is_ws c \<longleftrightarrow> c = 32 \<or> c = 9 \<or> c = 10 \<or> c = 13"

definition skip_ws :: "pystr \<Rightarrow> pystr" where
  "skip_ws s = dropWhile is_ws s"

definition is_digit :: "nat \<Rightarrow> bool" where
  "is_digit c \<longleftrightarrow> 48 \<le> c \<and> c \<le> 57"

definition hex_val :: "nat \<Rightarrow> nat option" where
  "hex_val c =
     (if 48 \<le> c \<and> c \<le> 57 then Some (c - 48)
      else if 97 \<le> c \<and> c \<le> 102 then Some (c - 87)
      else if 65 \<le> c \<and> c \<le> 70 then Some (c - 55)
      else None)"

text \<open>The four hexadecimal digits after \<open>\u\<close>.\<close>

definition decode_uXXXX :: "pystr \<Rightarrow> nat option" where
  "decode_uXXXX s =
     (case map hex_val (take 4 s) of
        [Some a, Some b, Some c, Some d] \<Rightarrow> Some (((a * 16 + b) * 16 + c) * 16 + d)
      | _ \<Rightarrow> None)"

definition backslash :: "nat \<Rightarrow> nat option" where
  "backslash e =
     (if e = 34 then Some 34
      else if e = 92 then Some 92
      else if e = 47 then Some 47
      else if e = 98 then Some 8
      else if e = 102 then Some 12
      else if e = 110 then Some 10
      else if e = 114 then Some 13
      else if e = 116 then Some 9
      else None)"

text \<open>
  \<open>scanstring\<close> (strict): the text after the opening quote, up to the closing quote. A
  raw control character, an unknown escape and a missing closing quote are errors. A
  \<open>\u\<close> escape of a high surrogate followed by one of a low surrogate is one code point.
\<close>

function scanstring :: "pystr \<Rightarrow> pystr \<Rightarrow> (pystr \<times> pystr) option" where
  "scanstring chunks [] = None"
| "scanstring chunks (c # cs) =
     (if c = 34 then Some (chunks, cs)
      else if c = 92 then
        (case cs of
           [] \<Rightarrow> None
         | esc # es \<Rightarrow>
             if esc = 117 then
               (case decode_uXXXX es of
                  None \<Rightarrow> None
                | Some uni \<Rightarrow>
                    if 55296 \<le> uni \<and> uni \<le> 56319 \<and> take 2 (drop 4 es) = [92, 117] then
                      (case decode_uXXXX (drop 6 es) of
                         None \<Rightarrow> None
                       | Some uni2 \<Rightarrow>
                           if 56320 \<le> uni2 \<and> uni2 \<le> 57343
                           then scanstring (chunks @ [65536 + ((uni - 55296) * 1024 + (uni2 - 56320))]) (drop 10 es)
                           else scanstring (chunks @ [uni]) (drop 4 es))
                    else scanstring (chunks @ [uni]) (drop 4 es))
             else
               (case backslash esc of
                  None \<Rightarrow> None
                | Some ch \<Rightarrow> scanstring (chunks @ [ch]) es))
      else if c < 32 then None
      else scanstring (chunks @ [c]) cs)"
  by pat_completeness auto
termination
  by (relation "measure (\<lambda>(chunks, s). length s)") auto

lemma scanstring_step:
  "scanstring chunks (c # cs) = Some (v, r) \<Longrightarrow>
     (v = chunks \<and> r = cs) \<or> (\<exists>ch. scanstring ch cs = Some (v, r))
     \<or> (\<exists>ch. scanstring ch (drop 1 cs) = Some (v, r))
     \<or> (\<exists>ch. scanstring ch (drop 5 cs) = Some (v, r))
     \<or> (\<exists>ch. scanstring ch (drop 11 cs) = Some (v, r))"
  apply (simp only: scanstring.simps)
  apply (simp only: split: if_splits list.splits option.splits)
  apply (simp_all del: scanstring.simps)
  apply blast+
  done

lemma scanstring_shorter: "scanstring chunks s = Some (v, r) \<Longrightarrow> length r < length s"
proof (induction "length s" arbitrary: chunks s rule: less_induct)
  case less
  show ?case
  proof (cases s)
    case Nil
    with less.prems show ?thesis by simp
  next
    case (Cons c cs)
    have step: "length r < length s" if "scanstring ch (drop k cs) = Some (v, r)" for ch k
    proof -
      have "length (drop k cs) < length s" using Cons by simp
      from less.hyps [OF this that] show ?thesis using Cons by simp
    qed
    from less.prems Cons have "scanstring chunks (c # cs) = Some (v, r)" by simp
    from scanstring_step [OF this] show ?thesis
      using step [of _ 0] step [of _ 1] step [of _ 5] step [of _ 11] Cons
      by (elim disjE exE) simp_all
  qed
qed

text \<open>
  The number pattern \<open>(-?(?:0|[1-9][0-9]*))(\.[0-9]+)?([eE][-+]?[0-9]+)?\<close>, matched at the
  start of the text: the literal and the rest.
\<close>

definition match_integer :: "pystr \<Rightarrow> (pystr \<times> pystr) option" where
  "match_integer s =
     (let sign = (if take 1 s = [45] then [45] else []);
          s1 = drop (length sign) s
      in if take 1 s1 = [48] then Some (sign @ [48], drop 1 s1)
         else if s1 \<noteq> [] \<and> 49 \<le> hd s1 \<and> hd s1 \<le> 57
           then Some (sign @ takeWhile is_digit s1, dropWhile is_digit s1)
         else None)"

definition match_frac :: "pystr \<Rightarrow> pystr \<times> pystr" where
  "match_frac s =
     (if take 1 s = [46] \<and> takeWhile is_digit (drop 1 s) \<noteq> []
      then (46 # takeWhile is_digit (drop 1 s), dropWhile is_digit (drop 1 s))
      else ([], s))"

definition match_exp :: "pystr \<Rightarrow> pystr \<times> pystr" where
  "match_exp s =
     (let esign = (if take 1 (drop 1 s) = [45] \<or> take 1 (drop 1 s) = [43] then take 1 (drop 1 s) else []);
          edigits = takeWhile is_digit (drop (1 + length esign) s)
      in if (take 1 s = [101] \<or> take 1 s = [69]) \<and> edigits \<noteq> []
         then (take 1 s @ esign @ edigits, dropWhile is_digit (drop (1 + length esign) s))
         else ([], s))"

definition match_number :: "pystr \<Rightarrow> (pystr \<times> pystr) option" where
  "match_number s =
     (case match_integer s of
        None \<Rightarrow> None
      | Some (integer, s2) \<Rightarrow>
          (let (frac, s3) = match_frac s2;
               (exp, s4) = match_exp s3
           in Some (integer @ frac @ exp, s4)))"

lemma match_integer_shorter: "match_integer s = Some (lexeme, r) \<Longrightarrow> length r < length s"
proof -
  assume a: "match_integer s = Some (lexeme, r)"
  define s1 where "s1 = drop (length (if take 1 s = [45] then [45::nat] else [])) s"
  have l1: "length s1 \<le> length s" by (simp add: s1_def)
  from a have cases: "(take 1 s1 = [48] \<and> r = drop 1 s1)
      \<or> (s1 \<noteq> [] \<and> 49 \<le> hd s1 \<and> hd s1 \<le> 57 \<and> r = dropWhile is_digit s1)"
    unfolding match_integer_def Let_def s1_def [symmetric] by (simp split: if_splits)
  then show ?thesis
  proof
    assume z: "take 1 s1 = [48] \<and> r = drop 1 s1"
    then obtain c cs where "s1 = c # cs" by (cases s1) auto
    with z l1 show ?thesis by simp
  next
    assume d: "s1 \<noteq> [] \<and> 49 \<le> hd s1 \<and> hd s1 \<le> 57 \<and> r = dropWhile is_digit s1"
    then obtain c cs where s1: "s1 = c # cs" by (cases s1) auto
    with d have "is_digit c" by (simp add: is_digit_def)
    with d s1 have "length r \<le> length cs"
      by (simp add: length_dropWhile_le)
    with s1 l1 show ?thesis by simp
  qed
qed

lemma match_frac_le: "length (snd (match_frac s)) \<le> length s"
proof -
  have "length (dropWhile is_digit (drop n s)) \<le> length s" for n
    using length_dropWhile_le [of is_digit "drop n s"] by simp
  then show ?thesis by (simp add: match_frac_def)
qed

lemma match_exp_le: "length (snd (match_exp s)) \<le> length s"
proof -
  have "length (dropWhile is_digit (drop n s)) \<le> length s" for n
    using length_dropWhile_le [of is_digit "drop n s"] by simp
  then show ?thesis by (simp add: match_exp_def Let_def)
qed

lemma match_number_shorter: "match_number s = Some (lexeme, r) \<Longrightarrow> length r < length s"
proof -
  assume a: "match_number s = Some (lexeme, r)"
  then obtain i s2 where i: "match_integer s = Some (i, s2)"
    by (auto simp: match_number_def split: option.splits)
  with a have r: "r = snd (match_exp (snd (match_frac s2)))"
    by (simp add: match_number_def split_beta)
  from match_integer_shorter [OF i] match_frac_le [of s2] match_exp_le [of "snd (match_frac s2)"] r
  show ?thesis by simp
qed

text \<open>\<open>dict(pairs)\<close>: a later pair with the same key replaces the value of the earlier one.\<close>

definition dict_of :: "(pystr \<times> json) list \<Rightarrow> (pystr \<times> json) list" where
  "dict_of pairs = foldl (\<lambda>d (k, v). AList.update k v d) [] pairs"

lemma skip_ws_le: "length (skip_ws s) \<le> length s"
  by (simp add: skip_ws_def length_dropWhile_le)

text \<open>
  \<open>scan_once\<close> reads one value; \<open>JSONArray\<close> is the loop over the items of an array, from
  the first item on, and \<open>JSONObject\<close> the loop over the members of an object, from after
  the opening quote of a key. The tests \<open>length r < length s\<close> say that reading a value
  consumes text; they always hold (\<open>scan_once_shorter\<close>) and make the recursion terminate.
\<close>

function scan_once :: "pystr \<Rightarrow> (json \<times> pystr) option"
  and JSONArray :: "json list \<Rightarrow> pystr \<Rightarrow> (json list \<times> pystr) option"
  and JSONObject :: "(pystr \<times> json) list \<Rightarrow> pystr \<Rightarrow> ((pystr \<times> json) list \<times> pystr) option"
where
  "scan_once s =
     (if s = [] then None
      else if hd s = 34 then
        (case scanstring [] (tl s) of None \<Rightarrow> None | Some (v, r) \<Rightarrow> Some (JStr v, r))
      else if hd s = 123 then
        (if take 1 (skip_ws (tl s)) = [125] then Some (JObj [], drop 1 (skip_ws (tl s)))
         else if take 1 (skip_ws (tl s)) = [34] then
           (case JSONObject [] (drop 1 (skip_ws (tl s))) of
              None \<Rightarrow> None
            | Some (pairs, r) \<Rightarrow> Some (JObj (dict_of pairs), r))
         else None)
      else if hd s = 91 then
        (if take 1 (skip_ws (tl s)) = [93] then Some (JArr [], drop 1 (skip_ws (tl s)))
         else
           (case JSONArray [] (skip_ws (tl s)) of
              None \<Rightarrow> None
            | Some (vals, r) \<Rightarrow> Some (JArr vals, r)))
      else if startswith s (str ''null'') then Some (JNull, drop 4 s)
      else if startswith s (str ''true'') then Some (JBool True, drop 4 s)
      else if startswith s (str ''false'') then Some (JBool False, drop 5 s)
      else
        (case match_number s of
           Some (lexeme, r) \<Rightarrow> Some (JNum lexeme, r)
         | None \<Rightarrow>
             if startswith s (str ''NaN'') then Some (JNum (str ''NaN''), drop 3 s)
             else if startswith s (str ''Infinity'') then Some (JNum (str ''Infinity''), drop 8 s)
             else if startswith s (str ''-Infinity'') then Some (JNum (str ''-Infinity''), drop 9 s)
             else None))"
| "JSONArray vals s =
     (case scan_once s of
        None \<Rightarrow> None
      | Some (v, r) \<Rightarrow>
          if \<not> length r < length s then None
          else if take 1 (skip_ws r) = [93] then Some (vals @ [v], drop 1 (skip_ws r))
          else if take 1 (skip_ws r) = [44] then JSONArray (vals @ [v]) (skip_ws (drop 1 (skip_ws r)))
          else None)"
| "JSONObject pairs s =
     (case scanstring [] s of
        None \<Rightarrow> None
      | Some (key, r) \<Rightarrow>
          if take 1 (skip_ws r) \<noteq> [58] then None
          else
            (case scan_once (skip_ws (drop 1 (skip_ws r))) of
               None \<Rightarrow> None
             | Some (v, r') \<Rightarrow>
                 if \<not> length r' < length s then None
                 else if take 1 (skip_ws r') = [125] then Some (pairs @ [(key, v)], drop 1 (skip_ws r'))
                 else if take 1 (skip_ws r') = [44] \<and> take 1 (skip_ws (drop 1 (skip_ws r'))) = [34]
                   then JSONObject (pairs @ [(key, v)]) (drop 1 (skip_ws (drop 1 (skip_ws r'))))
                 else None))"
  by pat_completeness auto

termination
proof (relation "measure (\<lambda>x. case x of Inl s \<Rightarrow> 2 * length s
                                  | Inr (Inl (vals, s)) \<Rightarrow> 2 * length s + 1
                                  | Inr (Inr (pairs, s)) \<Rightarrow> 2 * length s + 1)", goal_cases)
  case 1
  then show ?case by simp
next
  case (2 s)
  have "length (drop 1 (skip_ws (tl s))) \<le> length (tl s)"
    using skip_ws_le [of "tl s"] by simp
  with 2 show ?case by (cases s) auto
next
  case (3 s)
  with skip_ws_le [of "tl s"] show ?case by (cases s) auto
next
  case (4 vals s)
  then show ?case by simp
next
  case (5 vals s x2 v r)
  have "length (skip_ws (drop 1 (skip_ws r))) \<le> length r"
    using skip_ws_le [of "drop 1 (skip_ws r)"] skip_ws_le [of r] by simp
  with 5 show ?case by simp
next
  case (6 pairs s x2 key r)
  from 6 have "length r < length s" by (auto dest: scanstring_shorter)
  moreover have "length (skip_ws (drop 1 (skip_ws r))) \<le> length r"
    using skip_ws_le [of "drop 1 (skip_ws r)"] skip_ws_le [of r] by simp
  ultimately show ?case by simp
next
  case (7 pairs s x2 key r x2a v r')
  have "length (drop 1 (skip_ws (drop 1 (skip_ws r')))) \<le> length r'"
    using skip_ws_le [of "drop 1 (skip_ws r')"] skip_ws_le [of r'] by simp
  with 7 show ?case by simp
qed

declare scan_once.simps [simp del] JSONArray.simps [simp del] JSONObject.simps [simp del]

lemma scan_once_shorter:
  "(\<forall>v r. scan_once s = Some (v, r) \<longrightarrow> length r < length s)"
  "(\<forall>v r. JSONArray vals s = Some (v, r) \<longrightarrow> length r < length s)"
  "(\<forall>v r. JSONObject pairs s = Some (v, r) \<longrightarrow> length r < length s)"
proof (induction s and vals s and pairs s rule: scan_once_JSONArray_JSONObject.induct)
  case (1 s)
  show ?case
  proof (intro allI impI)
    fix v r
    assume a: "scan_once s = Some (v, r)"
    then have ne: "s \<noteq> []" by (auto simp: scan_once.simps)
    have tl: "length (tl s) < length s" using ne by (cases s) auto
    have sk: "length (skip_ws (tl s)) \<le> length (tl s)" by (rule skip_ws_le)
    consider (str) "hd s = 34" | (obj) "hd s \<noteq> 34" "hd s = 123" | (arr) "hd s \<noteq> 34" "hd s \<noteq> 123" "hd s = 91"
      | (other) "hd s \<noteq> 34" "hd s \<noteq> 123" "hd s \<noteq> 91" by blast
    then show "length r < length s"
    proof cases
      case str
      with a ne obtain w where "scanstring [] (tl s) = Some (w, r)"
        by (subst (asm) scan_once.simps) (auto split: option.splits)
      from scanstring_shorter [OF this] tl show ?thesis by simp
    next
      case obj
      show ?thesis
      proof (cases "take 1 (skip_ws (tl s)) = [125]")
        case True
        with a ne obj have "r = drop 1 (skip_ws (tl s))"
          by (subst (asm) scan_once.simps) simp
        with sk tl show ?thesis by simp
      next
        case False
        with a ne obj have q: "take 1 (skip_ws (tl s)) = [34]"
          by (subst (asm) scan_once.simps) (auto split: if_splits)
        with a ne obj False obtain ps where "JSONObject [] (drop 1 (skip_ws (tl s))) = Some (ps, r)"
          by (subst (asm) scan_once.simps) (auto split: option.splits)
        with "1.IH"(1) [OF ne obj(1) obj(2) False q]
        have "length r < length (drop 1 (skip_ws (tl s)))" by blast
        with sk tl show ?thesis by simp
      qed
    next
      case arr
      show ?thesis
      proof (cases "take 1 (skip_ws (tl s)) = [93]")
        case True
        with a ne arr have "r = drop 1 (skip_ws (tl s))"
          by (subst (asm) scan_once.simps) simp
        with sk tl show ?thesis by simp
      next
        case False
        with a ne arr obtain vs where "JSONArray [] (skip_ws (tl s)) = Some (vs, r)"
          by (subst (asm) scan_once.simps) (auto split: option.splits)
        with "1.IH"(2) [OF ne arr(1) arr(2) arr(3) False]
        have "length r < length (skip_ws (tl s))" by blast
        with sk tl show ?thesis by simp
      qed
    next
      case other
      from a ne other have
        "r = drop 4 s \<or> r = drop 5 s \<or> r = drop 3 s \<or> r = drop 8 s \<or> r = drop 9 s
         \<or> (\<exists>l. match_number s = Some (l, r))"
        by (subst (asm) scan_once.simps) (auto split: if_splits option.splits)
      then show ?thesis
        using ne match_number_shorter [of s _ r]
        by (elim disjE exE) simp_all
    qed
  qed
next
  case (2 vals s)
  show ?case
  proof (intro allI impI)
    fix w r'
    assume a: "JSONArray vals s = Some (w, r')"
    then obtain v r where so: "scan_once s = Some (v, r)" and g: "length r < length s"
      by (subst (asm) JSONArray.simps) (auto split: option.splits if_splits)
    have sk: "length (skip_ws r) \<le> length r" by (rule skip_ws_le)
    show "length r' < length s"
    proof (cases "take 1 (skip_ws r) = [93]")
      case True
      with a so g have "r' = drop 1 (skip_ws r)"
        by (subst (asm) JSONArray.simps) simp
      with sk g show ?thesis by simp
    next
      case False
      with a so g have c: "take 1 (skip_ws r) = [44]"
        and rest: "JSONArray (vals @ [v]) (skip_ws (drop 1 (skip_ws r))) = Some (w, r')"
        by (subst (asm) JSONArray.simps, simp split: if_splits)+
      have "\<not> \<not> length r < length s" using g by simp
      from "2.IH"(2) [OF so refl this False c] rest
      have "length r' < length (skip_ws (drop 1 (skip_ws r)))" by blast
      moreover have "length (skip_ws (drop 1 (skip_ws r))) \<le> length r"
        using skip_ws_le [of "drop 1 (skip_ws r)"] sk by simp
      ultimately show ?thesis using g by simp
    qed
  qed
next
  case (3 pairs s)
  show ?case
  proof (intro allI impI)
    fix w r'
    assume a: "JSONObject pairs s = Some (w, r')"
    then obtain key r where ss: "scanstring [] s = Some (key, r)"
      by (subst (asm) JSONObject.simps) (auto split: option.splits)
    with a have colon: "\<not> take 1 (skip_ws r) \<noteq> [58]"
      by (subst (asm) JSONObject.simps) (auto split: if_splits)
    with a ss obtain v r2 where so: "scan_once (skip_ws (drop 1 (skip_ws r))) = Some (v, r2)"
      by (subst (asm) JSONObject.simps) (auto split: option.splits)
    with a ss colon have g: "length r2 < length s"
      by (subst (asm) JSONObject.simps) (auto split: if_splits)
    have sk: "length (skip_ws r2) \<le> length r2" by (rule skip_ws_le)
    show "length r' < length s"
    proof (cases "take 1 (skip_ws r2) = [125]")
      case True
      with a ss colon so g have "r' = drop 1 (skip_ws r2)"
        by (subst (asm) JSONObject.simps) simp
      with sk g show ?thesis by simp
    next
      case False
      with a ss colon so g have c: "take 1 (skip_ws r2) = [44] \<and> take 1 (skip_ws (drop 1 (skip_ws r2))) = [34]"
        and rest: "JSONObject (pairs @ [(key, v)]) (drop 1 (skip_ws (drop 1 (skip_ws r2)))) = Some (w, r')"
        by (subst (asm) JSONObject.simps, simp split: if_splits)+
      have "\<not> \<not> length r2 < length s" using g by simp
      from "3.IH"(2) [OF ss refl colon so refl this False c] rest
      have "length r' < length (drop 1 (skip_ws (drop 1 (skip_ws r2))))" by blast
      moreover have "length (drop 1 (skip_ws (drop 1 (skip_ws r2)))) \<le> length r2"
        using skip_ws_le [of "drop 1 (skip_ws r2)"] sk by simp
      ultimately show ?thesis using g by simp
    qed
  qed
qed


text \<open>
  \<open>json.loads\<close>: one value between optional whitespace, and nothing after it.
\<close>

definition json_loads :: "pystr \<Rightarrow> json option" where
  "json_loads s =
     (case scan_once (skip_ws s) of
        None \<Rightarrow> None
      | Some (obj, r) \<Rightarrow> if skip_ws r = [] then Some obj else None)"

section \<open>Files\<close>

text \<open>
  The files the server keeps, by path. Every file is opened as UTF-8 text. \<open>Text t\<close> is a
  file whose bytes are the UTF-8 encoding of \<open>t\<close>; \<open>Garbled t\<close> is a file whose bytes are
  not valid UTF-8, and \<open>t\<close> is what is left of them when the invalid bytes are skipped
  (\<open>errors="ignore"\<close>). A full disk and a missing directory are outside the model. Two
  paths name the same file only when they are the same string.
\<close>

datatype content = Text pystr | Garbled pystr

type_synonym fs = "pystr \<Rightarrow> content option"

text \<open>\<open>open(path, 'r', encoding='utf-8')\<close> and reading the whole file.\<close>

definition read_text :: "fs \<Rightarrow> pystr \<Rightarrow> error + pystr" where
  "read_text files path =
     (case files path of
        None \<Rightarrow> Inl FileNotFoundError
      | Some (Garbled t) \<Rightarrow> Inl UnicodeDecodeError
      | Some (Text t) \<Rightarrow> Inr t)"

text \<open>The same with \<open>errors="ignore"\<close>.\<close>

definition read_text_ignore :: "fs \<Rightarrow> pystr \<Rightarrow> error + pystr" where
  "read_text_ignore files path =
     (case files path of
        None \<Rightarrow> Inl FileNotFoundError
      | Some (Garbled t) \<Rightarrow> Inr t
      | Some (Text t) \<Rightarrow> Inr t)"

text \<open>
  \<open>with open(path, 'w', encoding='utf-8') as f: json.dump(obj, f, indent=2, ensure_ascii=False)\<close>.
  Opening the file empties it. Every chunk is encoded when it is written; the first chunk
  that UTF-8 cannot encode raises \<open>UnicodeEncodeError\<close>, and the file is closed holding the
  chunks written before it.
\<close>

definition json_dump :: "json \<Rightarrow> pystr \<Rightarrow> fs \<Rightarrow> (error + unit) \<times> fs" where
  "json_dump obj path files =
     (let chunks = iterencode 0 obj
      in if list_all encodable chunks
         then (Inr (), files(path \<mapsto> Text (concat chunks)))
         else (Inl UnicodeEncodeError, files(path \<mapsto> Text (concat (takeWhile encodable chunks)))))"

text \<open>\<open>os.path.join\<close> of two components (POSIX).\<close>

definition path_join :: "pystr \<Rightarrow> pystr \<Rightarrow> pystr" where
  "path_join a b =
     (if take 1 b = [47] then b
      else if a = [] \<or> last a = 47 then a @ b
      else a @ [47] @ b)"

definition KNOWLEDGE_FILE :: pystr where
  "KNOWLEDGE_FILE = str ''knowledge.json''"

definition ALLOWED_EXTENSIONS :: "pystr set" where
  "ALLOWED_EXTENSIONS = {str ''.txt'', str ''.py'', str ''.pdf''}"

definition SESSIONS_DIR :: pystr where
  "SESSIONS_DIR = str ''sessions''"

definition SESSION_FILE :: pystr where
  "SESSION_FILE = path_join SESSIONS_DIR (str ''session.json'')"

definition UPLOAD_FOLDER :: pystr where
  "UPLOAD_FOLDER = str ''uploads''"

section \<open>Knowledge handling\<close>

text \<open>
  Every operation on the files returns its result, or the exception it raises, together
  with the files as it leaves them.

  \<open>load_knowledge\<close>: a missing file is created holding \<open>[]\<close>. Then the file is read and
  parsed; only \<open>json.JSONDecodeError\<close> is caught, and gives the empty list. Whatever JSON
  value the file holds is returned as it is.
\<close>

definition load_knowledge :: "fs \<Rightarrow> (error + json) \<times> fs" where
  "load_knowledge files =
     (let files1 = (if files KNOWLEDGE_FILE = None
                    then files(KNOWLEDGE_FILE \<mapsto> Text (str ''[]''))
                    else files)
      in case read_text files1 KNOWLEDGE_FILE of
           Inl e \<Rightarrow> (Inl e, files1)
         | Inr t \<Rightarrow>
             (case json_loads t of
                Some data \<Rightarrow> (Inr data, files1)
              | None \<Rightarrow> (Inr (JArr []), files1)))"

text \<open>
  \<open>save_knowledge\<close> returns nothing, or raises what the write raises and leaves the file
  as the failed write left it.
\<close>

definition save_knowledge :: "json \<Rightarrow> fs \<Rightarrow> (error + unit) \<times> fs" where
  "save_knowledge data files = json_dump data KNOWLEDGE_FILE files"

text \<open>\<open>re.sub(r'\s+', ' ', content)\<close>: every run of whitespace becomes one space.\<close>

fun sub_spaces :: "bool \<Rightarrow> pystr \<Rightarrow> pystr" where
  "sub_spaces in_run [] = []"
| "sub_spaces in_run (c # cs) =
     (if isspace c then (if in_run then sub_spaces True cs else 32 # sub_spaces True cs)
      else c # sub_spaces False cs)"

text \<open>
  \<open>extract_text\<close>; \<open>get_text\<close> is the text that BeautifulSoup extracts from markup, a
  collaborator outside the repository.
\<close>

definition extract_text :: "(pystr \<Rightarrow> pystr) \<Rightarrow> pystr \<Rightarrow> pystr option \<Rightarrow> pystr" where
  "extract_text get_text content filename =
     (let content1 =
        (case filename of
           None \<Rightarrow> content
         | Some name \<Rightarrow>
             if name \<noteq> [] \<and> (endswith name (str ''.html'') \<or> endswith name (str ''.php''))
             then get_text content else content)
      in strip (sub_spaces False content1))"

text \<open>
  \<open>re.split(r'(?<=[.!?]) +', text)\<close>. A match is a maximal run of spaces that follows a
  full stop, an exclamation mark or a question mark; the pieces between the matches are
  returned, the last one also when it is empty. \<open>cur\<close> is the piece being read; the state
  says whether the previous character ended a sentence, or whether a match is being
  skipped.
\<close>

datatype split_state = Plain | AfterTerminal | InGap

fun re_split :: "split_state \<Rightarrow> pystr \<Rightarrow> pystr \<Rightarrow> pystr list" where
  "re_split st cur [] = [cur]"
| "re_split st cur (c # cs) =
     (if c = 32 \<and> st = AfterTerminal then cur # re_split InGap [] cs
      else if c = 32 \<and> st = InGap then re_split InGap [] cs
      else re_split (if c = 46 \<or> c = 33 \<or> c = 63 then AfterTerminal else Plain) (cur @ [c]) cs)"

text \<open>\<open>[s.strip() for s in sentences if len(s.strip()) > 5]\<close>\<close>

definition candidate_sentences :: "pystr \<Rightarrow> pystr list" where
  "candidate_sentences text =
     map strip (filter (\<lambda>s. length (strip s) > 5) (re_split Plain [] text))"

text \<open>
  \<open>s in knowledge\<close>, for whatever value the knowledge file held: membership in a list, a
  key of a dict, a substring of a string, and \<open>TypeError\<close> otherwise.
\<close>

fun py_contains :: "json \<Rightarrow> pystr \<Rightarrow> error + bool" where
  "py_contains (JArr items) s = Inr (JStr s \<in> set items)"
| "py_contains (JObj d) s = Inr (s \<in> fst ` set d)"
| "py_contains (JStr t) s = Inr (is_substring s t)"
| "py_contains _ s = Inl TypeError"

text \<open>\<open>[s for s in sentences if s not in knowledge]\<close>: \<open>knowledge\<close> is the list as loaded.\<close>

fun absent_from :: "json \<Rightarrow> pystr list \<Rightarrow> error + pystr list" where
  "absent_from knowledge [] = Inr []"
| "absent_from knowledge (s # ss) =
     (case py_contains knowledge s of
        Inl e \<Rightarrow> Inl e
      | Inr found \<Rightarrow>
          (case absent_from knowledge ss of
             Inl e \<Rightarrow> Inl e
           | Inr new \<Rightarrow> Inr (if found then new else s # new)))"

text \<open>\<open>knowledge.extend(new)\<close>: only a list has \<open>extend\<close>.\<close>

fun py_extend :: "json \<Rightarrow> pystr list \<Rightarrow> error + json" where
  "py_extend (JArr items) new = Inr (JArr (items @ map JStr new))"
| "py_extend _ new = Inl AttributeError"

definition add_to_knowledge :: "pystr \<Rightarrow> fs \<Rightarrow> (error + nat) \<times> fs" where
  "add_to_knowledge text files =
     (let sentences = candidate_sentences text
      in case load_knowledge files of
           (Inl e, files1) \<Rightarrow> (Inl e, files1)
         | (Inr knowledge, files1) \<Rightarrow>
             (case absent_from knowledge sentences of
                Inl e \<Rightarrow> (Inl e, files1)
              | Inr new \<Rightarrow>
                  (case py_extend knowledge new of
                     Inl e \<Rightarrow> (Inl e, files1)
                   | Inr knowledge1 \<Rightarrow>
                       (case save_knowledge knowledge1 files1 of
                          (Inl e, files2) \<Rightarrow> (Inl e, files2)
                        | (Inr _, files2) \<Rightarrow> (Inr (length new), files2)))))"

section \<open>Session handling\<close>

definition load_session :: "fs \<Rightarrow> error + json" where
  "load_session files =
     (if files SESSION_FILE \<noteq> None then
        (case read_text files SESSION_FILE of
           Inl e \<Rightarrow> Inl e
         | Inr t \<Rightarrow> (case json_loads t of Some data \<Rightarrow> Inr data | None \<Rightarrow> Inr (JArr [])))
      else Inr (JArr []))"

definition timestamp_key :: pystr where
  "timestamp_key = str ''timestamp''"

text \<open>\<open>for msg in session_data\<close>: the items of a list, the keys of a dict, the characters of a string.\<close>

fun py_iter :: "json \<Rightarrow> error + json list" where
  "py_iter (JArr items) = Inr items"
| "py_iter (JObj d) = Inr (map (\<lambda>(k, v). JStr k) d)"
| "py_iter (JStr s) = Inr (map (\<lambda>c. JStr [c]) s)"
| "py_iter _ = Inl TypeError"

text \<open>\<open>msg['timestamp'] = ...\<close>: only a dict takes a string key.\<close>

fun set_timestamp :: "pystr \<Rightarrow> json \<Rightarrow> error + json" where
  "set_timestamp now (JObj d) = Inr (JObj (AList.update timestamp_key (JStr now) d))"
| "set_timestamp now _ = Inl TypeError"

text \<open>
  The loop that gives a timestamp to every message that has none. \<open>now n\<close> is what the
  \<open>n\<close>-th reading of the clock during the request returns, as \<open>isoformat()\<close> prints it.
\<close>

fun backfill :: "(nat \<Rightarrow> pystr) \<Rightarrow> nat \<Rightarrow> json list \<Rightarrow> error + json list" where
  "backfill now n [] = Inr []"
| "backfill now n (msg # msgs) =
     (case py_contains msg timestamp_key of
        Inl e \<Rightarrow> Inl e
      | Inr True \<Rightarrow>
          (case backfill now n msgs of Inl e \<Rightarrow> Inl e | Inr msgs1 \<Rightarrow> Inr (msg # msgs1))
      | Inr False \<Rightarrow>
          (case set_timestamp (now n) msg of
             Inl e \<Rightarrow> Inl e
           | Inr msg1 \<Rightarrow>
               (case backfill now (Suc n) msgs of
                  Inl e \<Rightarrow> Inl e
                | Inr msgs1 \<Rightarrow> Inr (msg1 # msgs1))))"

definition backfill_session :: "(nat \<Rightarrow> pystr) \<Rightarrow> nat \<Rightarrow> json \<Rightarrow> error + json" where
  "backfill_session now n session_data =
     (case py_iter session_data of
        Inl e \<Rightarrow> Inl e
      | Inr msgs \<Rightarrow>
          (case backfill now n msgs of
             Inl e \<Rightarrow> Inl e
           | Inr msgs1 \<Rightarrow> Inr (case session_data of JArr _ \<Rightarrow> JArr msgs1 | _ \<Rightarrow> session_data)))"

text \<open>
  \<open>save_session\<close>: the loop comes first, and the file is opened only when the loop has
  not raised.
\<close>

definition save_session :: "(nat \<Rightarrow> pystr) \<Rightarrow> nat \<Rightarrow> json \<Rightarrow> fs \<Rightarrow> (error + unit) \<times> fs" where
  "save_session now n session_data files =
     (case backfill_session now n session_data of
        Inl e \<Rightarrow> (Inl e, files)
      | Inr session_data1 \<Rightarrow> json_dump session_data1 SESSION_FILE files)"

text \<open>
  \<open>timestamp\<close> is what \<open>strftime("%Y%m%d_%H%M%S")\<close> prints. Only the archive file is
  written, also when the write fails.
\<close>

definition save_session_timestamped ::
  "(nat \<Rightarrow> pystr) \<Rightarrow> pystr \<Rightarrow> fs \<Rightarrow> (error + pystr) \<times> fs" where
  "save_session_timestamped now timestamp files =
     (case load_session files of
        Inl e \<Rightarrow> (Inl e, files)
      | Inr session \<Rightarrow>
          (case backfill_session now 0 session of
             Inl e \<Rightarrow> (Inl e, files)
           | Inr session1 \<Rightarrow>
               (let filename = path_join SESSIONS_DIR (str ''session_'' @ timestamp @ str ''.json'')
                in case json_dump session1 filename files of
                     (Inl e, files1) \<Rightarrow> (Inl e, files1)
                   | (Inr _, files1) \<Rightarrow> (Inr filename, files1))))"

section \<open>Chat logic\<close>

text \<open>
  \<open>re.findall(r'\b\w+\b', s)\<close>: the maximal runs of word characters of \<open>s\<close>, left to
  right. \<open>cur\<close> is the run being read.
\<close>

fun findall_words :: "(nat \<Rightarrow> bool) \<Rightarrow> pystr \<Rightarrow> pystr \<Rightarrow> pystr list" where
  "findall_words w cur [] = (if cur = [] then [] else [cur])"
| "findall_words w cur (c # cs) =
     (if w c then findall_words w (cur @ [c]) cs
      else (if cur = [] then [] else [cur]) @ findall_words w [] cs)"

text \<open>\<open>set(re.findall(r'\b\w+\b', s.lower()))\<close>\<close>

definition word_set :: "ucd \<Rightarrow> pystr \<Rightarrow> pystr set" where
  "word_set u s = set (findall_words (is_word u) [] (str_lower u s))"

text \<open>
  The loop of \<open>best_knowledge_match\<close> over the corpus; the state is
  \<open>(best_match, best_score)\<close>.
\<close>

fun match_loop :: "ucd \<Rightarrow> pystr set \<Rightarrow> pystr list \<Rightarrow> pystr option \<times> nat \<Rightarrow> pystr option \<times> nat" where
  "match_loop u user_words [] (best_match, best_score) = (best_match, best_score)"
| "match_loop u user_words (sentence # rest) (best_match, best_score) =
     (let overlap = card (user_words \<inter> word_set u sentence)
      in if overlap > best_score
         then match_loop u user_words rest (Some sentence, overlap)
         else match_loop u user_words rest (best_match, best_score))"

definition best_knowledge_match :: "ucd \<Rightarrow> pystr \<Rightarrow> pystr list \<Rightarrow> pystr option" where
  "best_knowledge_match u user_input knowledge =
     (let user_words = word_set u user_input;
          (best_match, best_score) = match_loop u user_words knowledge (None, 0)
      in if best_score \<ge> 3 then best_match else None)"

text \<open>
  The overlap score of the specification: the number of distinct lowercase word tokens
  that an utterance and a sentence share.
\<close>

definition overlap_score :: "ucd \<Rightarrow> pystr \<Rightarrow> pystr \<Rightarrow> nat" where
  "overlap_score u a b = card (word_set u a \<inter> word_set u b)"

section \<open>Routes\<close>

text \<open>
  What the loop of \<open>best_knowledge_match\<close> walks over when it is given the value that
  \<open>load_knowledge\<close> returned: the items of a list, each of which must have \<open>lower()\<close>; the
  keys of a dict; the characters of a string.
\<close>

fun sentences_of :: "json \<Rightarrow> error + pystr list" where
  "sentences_of (JArr items) =
     (if list_all (\<lambda>x. case x of JStr s \<Rightarrow> True | _ \<Rightarrow> False) items
      then Inr (concat (map (\<lambda>x. case x of JStr s \<Rightarrow> [s] | _ \<Rightarrow> []) items))
      else Inl AttributeError)"
| "sentences_of (JObj d) = Inr (map fst d)"
| "sentences_of (JStr s) = Inr (map (\<lambda>c. [c]) s)"
| "sentences_of _ = Inl TypeError"

definition reply_json :: "pystr \<Rightarrow> json" where
  "reply_json reply = JObj [(str ''from'', JStr (str ''IA'')), (str ''reply'', JStr reply)]"

text \<open>The reply for a failed completion: a warning sign (U+26A0 U+FE0F), \<open>Model error:\<close> and \<open>str(e)\<close>.\<close>

definition model_error_reply :: "pystr \<Rightarrow> pystr" where
  "model_error_reply e = [9888, 65039] @ str '' Model error: '' @ e"

text \<open>
  The \<open>try\<close> block of \<open>chat\<close>. \<open>create_completion\<close> is the completion service, a
  collaborator outside the repository: for a prompt it gives the text of the first choice
  (\<open>Inr\<close>), or raises an exception \<open>e\<close>, of which \<open>Inl\<close> carries \<open>str(e)\<close>.
\<close>

definition model_reply :: "(pystr \<Rightarrow> pystr + pystr) \<Rightarrow> pystr \<Rightarrow> pystr" where
  "model_reply create_completion user_input =
     (case create_completion (str ''[INST] '' @ user_input @ str '' [/INST]'') of
        Inr text \<Rightarrow> strip text
      | Inl e \<Rightarrow> model_error_reply e)"

text \<open>\<open>session.append(turn)\<close>: only a list has \<open>append\<close>.\<close>

definition py_append :: "json \<Rightarrow> json \<Rightarrow> error + json" where
  "py_append session turn =
     (case session of JArr items \<Rightarrow> Inr (JArr (items @ [turn])) | _ \<Rightarrow> Inl AttributeError)"

text \<open>
  The handler of \<open>/chat\<close>; \<open>message\<close> is \<open>request.json.get("message", "")\<close>, a string. The
  result is the JSON body of the response.
\<close>

definition chat ::
  "ucd \<Rightarrow> (pystr \<Rightarrow> pystr + pystr) \<Rightarrow> (nat \<Rightarrow> pystr) \<Rightarrow> pystr \<Rightarrow> fs \<Rightarrow> (error + json) \<times> fs" where
  "chat u create_completion now message files =
     (let user_input = strip message
      in if user_input = [] then (Inr (reply_json (str ''Say something...'')), files)
         else
           (case load_knowledge files of
              (Inl e, files1) \<Rightarrow> (Inl e, files1)
            | (Inr knowledge, files1) \<Rightarrow>
                (case sentences_of knowledge of
                   Inl e \<Rightarrow> (Inl e, files1)
                 | Inr sentences \<Rightarrow>
                     (let matched_reply =
                            (case best_knowledge_match u user_input sentences of
                               None \<Rightarrow> model_reply create_completion user_input
                             | Some sentence \<Rightarrow>
                                 if sentence = [] then model_reply create_completion user_input
                                 else sentence)
                      in case load_session files1 of
                           Inl e \<Rightarrow> (Inl e, files1)
                         | Inr session \<Rightarrow>
                             (case py_append session
                                     (JObj [(str ''user'', JStr user_input), (str ''bot'', JStr matched_reply),
                                            (timestamp_key, JStr (now 0))]) of
                                Inl e \<Rightarrow> (Inl e, files1)
                              | Inr session1 \<Rightarrow>
                                  (case save_session now 1 session1 files1 of
                                     (Inl e, files2) \<Rightarrow> (Inl e, files2)
                                   | (Inr _, files2) \<Rightarrow> (Inr (reply_json matched_reply), files2)))))))"

text \<open>
  \<open>os.path.splitext\<close> (POSIX): \<open>rfind\<close> is the index of the last occurrence, or \<open>-1\<close>. The
  extension starts at the last dot of the last path component, unless only dots stand
  before it in that component.
\<close>

fun last_index :: "nat \<Rightarrow> pystr \<Rightarrow> nat \<Rightarrow> int \<Rightarrow> int" where
  "last_index c [] i found = found"
| "last_index c (x # xs) i found = last_index c xs (Suc i) (if x = c then int i else found)"

definition rfind :: "pystr \<Rightarrow> nat \<Rightarrow> int" where
  "rfind p c = last_index c p 0 (- 1)"

definition splitext :: "pystr \<Rightarrow> pystr \<times> pystr" where
  "splitext p =
     (let sepIndex = rfind p 47;
          dotIndex = rfind p 46
      in if dotIndex > sepIndex then
           (if list_all (\<lambda>c. c = 46) (take (nat (dotIndex - (sepIndex + 1))) (drop (nat (sepIndex + 1)) p))
            then (p, [])
            else (take (nat dotIndex) p, drop (nat dotIndex) p))
         else (p, []))"

text \<open>
  The responses of \<open>/upload\<close>, by the \<open>return\<close> that produces them, and their HTTP status.
\<close>

datatype response =
    NoFile
  | Unsupported pystr
  | SaveFailed pystr
  | Learned nat pystr
  | ProcessFailed error

fun status :: "response \<Rightarrow> nat" where
  "status NoFile = 400"
| "status (Unsupported ext) = 403"
| "status (SaveFailed e) = 500"
| "status (Learned added filename) = 200"
| "status (ProcessFailed e) = 500"

text \<open>
  The handler of \<open>/upload\<close>. \<open>file\<close> is \<open>request.files.get("file")\<close>: nothing, or the name
  and the bytes of the uploaded part. Werkzeug's \<open>FileStorage\<close> is false when its filename
  is empty, so \<open>not file\<close> also holds for a part without a name. \<open>save_error\<close> is the
  message of the exception that \<open>file.save\<close> raises, when it raises one.
\<close>

definition upload_file ::
  "ucd \<Rightarrow> (pystr \<Rightarrow> pystr) \<Rightarrow> (pystr \<times> content) option \<Rightarrow> pystr option \<Rightarrow> fs \<Rightarrow> response \<times> fs" where
  "upload_file u get_text file save_error files =
     (case file of
        None \<Rightarrow> (NoFile, files)
      | Some (name, data) \<Rightarrow>
          if name = [] then (NoFile, files)
          else
            (let filename = str_lower u name;
                 ext = snd (splitext filename)
             in if ext \<notin> ALLOWED_EXTENSIONS then (Unsupported ext, files)
                else
                  (let save_path = path_join UPLOAD_FOLDER filename
                   in case save_error of
                        Some e \<Rightarrow> (SaveFailed e, files)
                      | None \<Rightarrow>
                          (let files1 = files(save_path \<mapsto> data)
                           in case read_text_ignore files1 save_path of
                                Inl e \<Rightarrow> (ProcessFailed e, files1)
                              | Inr content \<Rightarrow>
                                  (case add_to_knowledge (extract_text get_text content (Some filename)) files1 of
                                     (Inl e, files2) \<Rightarrow> (ProcessFailed e, files2)
                                   | (Inr added, files2) \<Rightarrow> (Learned added filename, files2))))))"

section \<open>Notions of the specification\<close>

text \<open>A value of the corpus format: a JSON array of strings.\<close>

fun is_corpus :: "json \<Rightarrow> bool" where
  "is_corpus (JArr items) = list_all (\<lambda>x. case x of JStr s \<Rightarrow> True | _ \<Rightarrow> False) items"
| "is_corpus _ = False"

text \<open>
  The corpus that the knowledge store holds: the empty corpus when the knowledge file is
  absent, the list of strings that the file holds as JSON, and nothing otherwise.
\<close>

definition stored_corpus :: "fs \<Rightarrow> pystr list option" where
  "stored_corpus files =
     (case files KNOWLEDGE_FILE of
        None \<Rightarrow> Some []
      | Some (Garbled t) \<Rightarrow> None
      | Some (Text t) \<Rightarrow>
          (case json_loads t of
             Some (JArr items) \<Rightarrow>
               if is_corpus (JArr items)
               then Some (concat (map (\<lambda>x. case x of JStr s \<Rightarrow> [s] | _ \<Rightarrow> []) items))
               else None
           | _ \<Rightarrow> None))"

text \<open>
  A conversation turn, as the program writes it: a JSON object whose fields are strings.
\<close>

fun is_turn :: "json \<Rightarrow> bool" where
  "is_turn (JObj d) = list_all (\<lambda>(k, v). case v of JStr s \<Rightarrow> True | _ \<Rightarrow> False) d"
| "is_turn _ = False"

text \<open>
  The session log that the session store holds: no turn when the session file is absent,
  the list of turns that the file holds as JSON, and nothing otherwise.
\<close>

definition stored_session :: "fs \<Rightarrow> json list option" where
  "stored_session files =
     (case files SESSION_FILE of
        None \<Rightarrow> Some []
      | Some (Garbled t) \<Rightarrow> None
      | Some (Text t) \<Rightarrow>
          (case json_loads t of
             Some (JArr turns) \<Rightarrow> if list_all is_turn turns then Some turns else None
           | _ \<Rightarrow> None))"

text \<open>A JSON value all of whose strings, keys included, UTF-8 can encode.\<close>

fun encodable_json :: "json \<Rightarrow> bool" where
  "encodable_json JNull = True"
| "encodable_json (JBool b) = True"
| "encodable_json (JNum lexeme) = encodable lexeme"
| "encodable_json (JStr s) = encodable s"
| "encodable_json (JArr lst) = list_all encodable_json lst"
| "encodable_json (JObj dct) = list_all (\<lambda>(key, v). encodable key \<and> encodable_json v) dct"

section \<open>The matcher returns the first sentence with the highest score\<close>

lemma match_loop_inv:
  assumes "match_loop u uw k (bm, bs) = (bm', bs')"
  shows "(bm' = bm \<and> bs' = bs \<and> (\<forall>t \<in> set k. card (uw \<inter> word_set u t) \<le> bs))
       \<or> (\<exists>i < length k. bm' = Some (k ! i) \<and> bs' = card (uw \<inter> word_set u (k ! i)) \<and> bs < bs'
            \<and> (\<forall>j < i. card (uw \<inter> word_set u (k ! j)) < bs')
            \<and> (\<forall>j < length k. card (uw \<inter> word_set u (k ! j)) \<le> bs'))"
  using assms
proof (induction k arbitrary: bm bs)
  case Nil
  then show ?case by simp
next
  case (Cons s k)
  let ?f = "\<lambda>t. card (uw \<inter> word_set u t)"
  show ?case
  proof (cases "?f s > bs")
    case True
    with Cons.prems have run: "match_loop u uw k (Some s, ?f s) = (bm', bs')"
      by (simp add: Let_def)
    from Cons.IH [OF run] show ?thesis
    proof
      assume keep: "bm' = Some s \<and> bs' = ?f s \<and> (\<forall>t \<in> set k. ?f t \<le> ?f s)"
      then have "\<forall>j < length (s # k). ?f ((s # k) ! j) \<le> bs'"
        by (auto simp: nth_Cons split: nat.splits)
      with keep True have
        "0 < length (s # k) \<and> bm' = Some ((s # k) ! 0) \<and> bs' = ?f ((s # k) ! 0) \<and> bs < bs'
          \<and> (\<forall>j < 0. ?f ((s # k) ! j) < bs') \<and> (\<forall>j < length (s # k). ?f ((s # k) ! j) \<le> bs')"
        by simp
      then show ?thesis by blast
    next
      assume "\<exists>i < length k. bm' = Some (k ! i) \<and> bs' = ?f (k ! i) \<and> ?f s < bs'
            \<and> (\<forall>j < i. ?f (k ! j) < bs') \<and> (\<forall>j < length k. ?f (k ! j) \<le> bs')"
      then obtain i where i: "i < length k" "bm' = Some (k ! i)" "bs' = ?f (k ! i)" "?f s < bs'"
        "\<forall>j < i. ?f (k ! j) < bs'" "\<forall>j < length k. ?f (k ! j) \<le> bs'"
        by blast
      have before: "\<forall>j < Suc i. ?f ((s # k) ! j) < bs'"
        using i(4,5) by (auto simp: nth_Cons split: nat.splits)
      have all: "\<forall>j < length (s # k). ?f ((s # k) ! j) \<le> bs'"
        using i(4,6) by (auto simp: nth_Cons split: nat.splits)
      have "Suc i < length (s # k) \<and> bm' = Some ((s # k) ! Suc i) \<and> bs' = ?f ((s # k) ! Suc i)
          \<and> bs < bs'"
        using i(1,2,3,4) True by simp
      with before all show ?thesis by blast
    qed
  next
    case False
    with Cons.prems have run: "match_loop u uw k (bm, bs) = (bm', bs')"
      by (simp add: Let_def)
    from Cons.IH [OF run] show ?thesis
    proof
      assume "bm' = bm \<and> bs' = bs \<and> (\<forall>t \<in> set k. ?f t \<le> bs)"
      with False show ?thesis by auto
    next
      assume "\<exists>i < length k. bm' = Some (k ! i) \<and> bs' = ?f (k ! i) \<and> bs < bs'
            \<and> (\<forall>j < i. ?f (k ! j) < bs') \<and> (\<forall>j < length k. ?f (k ! j) \<le> bs')"
      then obtain i where i: "i < length k" "bm' = Some (k ! i)" "bs' = ?f (k ! i)" "bs < bs'"
        "\<forall>j < i. ?f (k ! j) < bs'" "\<forall>j < length k. ?f (k ! j) \<le> bs'"
        by blast
      from False i(4) have s: "?f s < bs'" by simp
      have before: "\<forall>j < Suc i. ?f ((s # k) ! j) < bs'"
        using s i(5) by (auto simp: nth_Cons split: nat.splits)
      have all: "\<forall>j < length (s # k). ?f ((s # k) ! j) \<le> bs'"
        using s i(6) by (auto simp: nth_Cons split: nat.splits)
      have "Suc i < length (s # k) \<and> bm' = Some ((s # k) ! Suc i) \<and> bs' = ?f ((s # k) ! Suc i)
          \<and> bs < bs'"
        using i(1,2,3,4) by simp
      with before all show ?thesis by blast
    qed
  qed
qed

text \<open>
  Claim C1. For every corpus \<open>k\<close> and utterance \<open>q\<close>, \<open>best_knowledge_match\<close> returns the
  sentence \<open>s\<close> exactly when \<open>s\<close> stands at the first position of the corpus (in
  insertion order) whose overlap score with the utterance is strictly higher than every
  earlier score and at least every later one, and that score is at least 3. It returns
  "no match" exactly when every sentence scores below 3: a best score of 2 gives no
  match, a best score of 3 gives a match.
\<close>

theorem best_knowledge_match_first_highest:
  "(best_knowledge_match u q k = Some s \<longleftrightarrow>
      (\<exists>i < length k. k ! i = s \<and> 3 \<le> overlap_score u q s
         \<and> (\<forall>j < i. overlap_score u q (k ! j) < overlap_score u q s)
         \<and> (\<forall>j < length k. overlap_score u q (k ! j) \<le> overlap_score u q s)))
   \<and> (best_knowledge_match u q k = None \<longleftrightarrow> (\<forall>t \<in> set k. overlap_score u q t < 3))"
proof -
  let ?uw = "word_set u q"
  let ?f = "\<lambda>t. card (?uw \<inter> word_set u t)"
  obtain bm bs where run: "match_loop u ?uw k (None, 0) = (bm, bs)"
    by (cases "match_loop u ?uw k (None, 0)")
  have res: "best_knowledge_match u q k = (if 3 \<le> bs then bm else None)"
    by (simp add: best_knowledge_match_def run)
  from match_loop_inv [OF run] show ?thesis
  proof
    assume none: "bm = None \<and> bs = 0 \<and> (\<forall>t \<in> set k. ?f t \<le> 0)"
    then have r: "best_knowledge_match u q k = None" using res by simp
    from none have low: "\<forall>t \<in> set k. overlap_score u q t < 3"
      by (simp add: overlap_score_def)
    then have "\<not> (\<exists>i < length k. k ! i = s \<and> 3 \<le> overlap_score u q s)"
      by (metis nth_mem not_less)
    with r low show ?thesis by auto
  next
    assume "\<exists>i < length k. bm = Some (k ! i) \<and> bs = ?f (k ! i) \<and> 0 < bs
            \<and> (\<forall>j < i. ?f (k ! j) < bs) \<and> (\<forall>j < length k. ?f (k ! j) \<le> bs)"
    then obtain i where i: "i < length k" "bm = Some (k ! i)" "bs = overlap_score u q (k ! i)"
        "\<forall>j < i. overlap_score u q (k ! j) < bs" "\<forall>j < length k. overlap_score u q (k ! j) \<le> bs"
      by (auto simp: overlap_score_def)
    have uniq: "i' = i" if "i' < length k" "\<forall>j < i'. overlap_score u q (k ! j) < overlap_score u q (k ! i')"
        "\<forall>j < length k. overlap_score u q (k ! j) \<le> overlap_score u q (k ! i')" for i'
    proof (rule ccontr)
      assume "i' \<noteq> i"
      then consider "i' < i" | "i < i'" by linarith
      then show False
      proof cases
        case 1
        with i(4) have "overlap_score u q (k ! i') < bs" by simp
        moreover from that(3) i(1) have "bs \<le> overlap_score u q (k ! i')" using i(3) by simp
        ultimately show False by simp
      next
        case 2
        with that(2) have "bs < overlap_score u q (k ! i')" using i(3) by simp
        moreover from i(5) that(1) have "overlap_score u q (k ! i') \<le> bs" by simp
        ultimately show False by simp
      qed
    qed
    show ?thesis
    proof (cases "3 \<le> bs")
      case True
      then have r: "best_knowledge_match u q k = Some (k ! i)" using res i(2) by simp
      have a: "(\<exists>i' < length k. k ! i' = s \<and> 3 \<le> overlap_score u q s
         \<and> (\<forall>j < i'. overlap_score u q (k ! j) < overlap_score u q s)
         \<and> (\<forall>j < length k. overlap_score u q (k ! j) \<le> overlap_score u q s)) \<longleftrightarrow> s = k ! i"
      proof
        assume "\<exists>i' < length k. k ! i' = s \<and> 3 \<le> overlap_score u q s
         \<and> (\<forall>j < i'. overlap_score u q (k ! j) < overlap_score u q s)
         \<and> (\<forall>j < length k. overlap_score u q (k ! j) \<le> overlap_score u q s)"
        then obtain i' where "i' < length k" "k ! i' = s"
          "\<forall>j < i'. overlap_score u q (k ! j) < overlap_score u q (k ! i')"
          "\<forall>j < length k. overlap_score u q (k ! j) \<le> overlap_score u q (k ! i')"
          by blast
        with uniq [of i'] show "s = k ! i" by blast
      next
        assume "s = k ! i"
        with i True show "\<exists>i' < length k. k ! i' = s \<and> 3 \<le> overlap_score u q s
         \<and> (\<forall>j < i'. overlap_score u q (k ! j) < overlap_score u q s)
         \<and> (\<forall>j < length k. overlap_score u q (k ! j) \<le> overlap_score u q s)"
          by blast
      qed
      have b: "\<not> (\<forall>t \<in> set k. overlap_score u q t < 3)"
        using True i(1,3) by (metis nth_mem not_less)
      from r a b show ?thesis by auto
    next
      case False
      then have r: "best_knowledge_match u q k = None" using res by simp
      from False i(5) have low: "\<forall>j < length k. overlap_score u q (k ! j) < 3"
        by (metis le_less_trans not_le)
      then have low': "\<forall>t \<in> set k. overlap_score u q t < 3"
        by (metis in_set_conv_nth)
      then have "\<not> (\<exists>i < length k. k ! i = s \<and> 3 \<le> overlap_score u q s)"
        by (metis nth_mem not_less)
      with r low' show ?thesis by auto
    qed
  qed
qed

theorem best_knowledge_match_first_highest_witness:
  "best_knowledge_match ascii_ucd (str ''do blue whales sing?'')
     [str ''The sky is blue.'', str ''Blue whales sing in the sea.'', str ''Whales sing in the blue sea.'']
     = Some (str ''Blue whales sing in the sea.'')
   \<and> (\<exists>i < length [str ''The sky is blue.'', str ''Blue whales sing in the sea.'', str ''Whales sing in the blue sea.''].
         [str ''The sky is blue.'', str ''Blue whales sing in the sea.'', str ''Whales sing in the blue sea.''] ! i
           = str ''Blue whales sing in the sea.''
         \<and> 3 \<le> overlap_score ascii_ucd (str ''do blue whales sing?'') (str ''Blue whales sing in the sea.'')
         \<and> (\<forall>j < i. overlap_score ascii_ucd (str ''do blue whales sing?'')
                ([str ''The sky is blue.'', str ''Blue whales sing in the sea.'', str ''Whales sing in the blue sea.''] ! j)
              < overlap_score ascii_ucd (str ''do blue whales sing?'') (str ''Blue whales sing in the sea.''))
         \<and> (\<forall>j < length [str ''The sky is blue.'', str ''Blue whales sing in the sea.'', str ''Whales sing in the blue sea.''].
              overlap_score ascii_ucd (str ''do blue whales sing?'')
                ([str ''The sky is blue.'', str ''Blue whales sing in the sea.'', str ''Whales sing in the blue sea.''] ! j)
              \<le> overlap_score ascii_ucd (str ''do blue whales sing?'') (str ''Blue whales sing in the sea.'')))
   \<and> best_knowledge_match ascii_ucd (str ''do whales sing?'')
     [str ''The sky is blue.'', str ''Blue whales sing in the sea.'', str ''Whales sing in the blue sea.'']
     = None"
proof -
  let ?k = "[str ''The sky is blue.'', str ''Blue whales sing in the sea.'', str ''Whales sing in the blue sea.'']"
  let ?s = "str ''Blue whales sing in the sea.''"
  have hit: "best_knowledge_match ascii_ucd (str ''do blue whales sing?'') ?k = Some ?s"
    by code_simp
  have low: "\<forall>t \<in> set ?k. overlap_score ascii_ucd (str ''do whales sing?'') t < 3"
    by code_simp
  note spec = best_knowledge_match_first_highest [of ascii_ucd _ ?k]
  from spec [of "str ''do blue whales sing?''" ?s, THEN conjunct1, THEN iffD1, OF hit]
  have first: "\<exists>i < length ?k. ?k ! i = ?s
         \<and> 3 \<le> overlap_score ascii_ucd (str ''do blue whales sing?'') ?s
         \<and> (\<forall>j < i. overlap_score ascii_ucd (str ''do blue whales sing?'') (?k ! j)
              < overlap_score ascii_ucd (str ''do blue whales sing?'') ?s)
         \<and> (\<forall>j < length ?k. overlap_score ascii_ucd (str ''do blue whales sing?'') (?k ! j)
              \<le> overlap_score ascii_ucd (str ''do blue whales sing?'') ?s)" .
  from spec [of "str ''do whales sing?''", THEN conjunct2, THEN iffD2, OF low]
  have miss: "best_knowledge_match ascii_ucd (str ''do whales sing?'') ?k = None" .
  from hit first miss show ?thesis by (intro conjI)
qed

section \<open>Writing and reading back a list of strings\<close>

lemma decode_uXXXX_control:
  "c < 32 \<Longrightarrow> decode_uXXXX (48 # 48 # hexdigit (c div 16) # hexdigit (c mod 16) # r) = Some c"
proof -
  assume c: "c < 32"
  then have d: "c div 16 < 2" by simp
  have h1: "hex_val (hexdigit (c div 16)) = Some (c div 16)"
    using d by (simp add: hex_val_def hexdigit_def)
  have m: "c mod 16 \<le> 15"
    using pos_mod_bound [of 16 "int c"] by (simp add: less_Suc_eq_le [symmetric] flip: of_nat_mod)
  have h2: "hex_val (hexdigit (c mod 16)) = Some (c mod 16)"
    using m by (simp add: hex_val_def hexdigit_def)
  have h0: "hex_val 48 = Some 0" by (simp add: hex_val_def)
  show ?thesis
    by (simp add: decode_uXXXX_def h0 h1 h2)
qed

lemma scanstring_escape_char:
  "scanstring chunks (escape_char c @ r) = scanstring (chunks @ [c]) r"
proof -
  consider "c = 34" | "c = 92" | "c = 10" | "c = 13" | "c = 9" | "c = 8" | "c = 12"
    | "c < 32" "c \<notin> {8, 9, 10, 12, 13}" | "32 \<le> c" "c \<noteq> 34" "c \<noteq> 92"
    by force
  then show ?thesis
  proof cases
    case 8
    then have e: "escape_char c = [92, 117, 48, 48, hexdigit (c div 16), hexdigit (c mod 16)]"
      by (simp add: escape_char_def)
    show ?thesis
      using 8(1) by (simp add: e decode_uXXXX_control)
  next
    case 9
    then have e: "escape_char c = [c]" by (simp add: escape_char_def)
    show ?thesis using 9 by (simp add: e)
  qed (simp_all add: escape_char_def backslash_def)
qed

lemma scanstring_escaped:
  "scanstring chunks (concat (map escape_char s) @ 34 # r) = Some (chunks @ s, r)"
proof (induction s arbitrary: chunks)
  case Nil
  then show ?case by simp
next
  case (Cons c s)
  have "scanstring chunks (concat (map escape_char (c # s)) @ 34 # r)
      = scanstring chunks (escape_char c @ (concat (map escape_char s) @ 34 # r))"
    by simp
  also have "\<dots> = scanstring (chunks @ [c]) (concat (map escape_char s) @ 34 # r)"
    by (rule scanstring_escape_char)
  also have "\<dots> = Some (chunks @ c # s, r)"
    by (simp add: Cons.IH)
  finally show ?case .
qed

lemma scan_once_string:
  "scan_once (encode_basestring s @ r) = Some (JStr s, r)"
  by (subst scan_once.simps) (simp add: encode_basestring_def scanstring_escaped)

lemma skip_ws_space: "skip_ws (32 # r) = skip_ws r" "skip_ws (10 # r) = skip_ws r"
  by (simp_all add: skip_ws_def is_ws_def)

lemma skip_ws_stop: "\<not> is_ws c \<Longrightarrow> skip_ws (c # r) = c # r"
  by (simp add: skip_ws_def)

lemma join_encode_Cons:
  "join sep (encode_basestring y # zs) @ r
     = 34 # concat (map escape_char y) @ 34 # (if zs = [] then [] else sep @ join sep zs) @ r"
  by (cases zs) (simp_all add: encode_basestring_def)

lemma skip_ws_join:
  "skip_ws (join sep (encode_basestring y # zs) @ r) = join sep (encode_basestring y # zs) @ r"
  unfolding join_encode_Cons by (simp add: skip_ws_stop is_ws_def)

lemma encode_basestring_nonempty [simp]: "0 < length (encode_basestring s)"
  by (simp add: encode_basestring_def)

lemma encode_basestring_not_Nil [simp]: "encode_basestring s \<noteq> []"
  by (simp add: encode_basestring_def)

lemma JSONArray_strings:
  "JSONArray vals (join [44, 10, 32, 32] (map encode_basestring (x # xs)) @ 10 # 93 # r)
     = Some (vals @ map JStr (x # xs), r)"
proof (induction xs arbitrary: x vals)
  case Nil
  have "JSONArray vals (encode_basestring x @ 10 # 93 # r) = Some (vals @ [JStr x], r)"
    by (subst JSONArray.simps)
       (simp add: scan_once_string skip_ws_space skip_ws_stop is_ws_def)
  then show ?case by simp
next
  case (Cons y ys)
  let ?tail = "join [44, 10, 32, 32] (encode_basestring y # map encode_basestring ys) @ 10 # 93 # r"
  have shape: "join [44, 10, 32, 32] (map encode_basestring (x # y # ys)) @ 10 # 93 # r
      = encode_basestring x @ 44 # 10 # 32 # 32 # ?tail"
    by simp
  have sk: "skip_ws (10 # 32 # 32 # ?tail) = ?tail"
    by (simp only: skip_ws_space skip_ws_join)
  have "JSONArray vals (encode_basestring x @ 44 # 10 # 32 # 32 # ?tail)
      = JSONArray (vals @ [JStr x]) ?tail"
    by (subst JSONArray.simps)
       (simp add: scan_once_string skip_ws_stop is_ws_def sk del: join.simps)
  then show ?case
    unfolding shape using Cons.IH [of "vals @ [JStr x]" y] by simp
qed

lemma join_Cons: "join sep (x # xs) = x @ concat (map (\<lambda>y. sep @ y) xs)"
  by (induction xs arbitrary: x) simp_all

lemma list_chunks_rest:
  "concat (list_chunks sep sep (map (\<lambda>v. (v, iterencode l v)) (map JStr xs)))
     = concat (map (\<lambda>y. sep @ y) (map encode_basestring xs))"
  by (induction xs) simp_all

lemma list_chunks_strings:
  "concat (list_chunks buf sep (map (\<lambda>v. (v, iterencode l v)) (map JStr (x # xs))))
     = buf @ join sep (map encode_basestring (x # xs))"
  using list_chunks_rest [of sep l xs] by (simp add: join_Cons del: join.simps)

lemma dumps_strings:
  "json_dumps (JArr (map JStr (x # xs)))
     = 91 # 10 # 32 # 32 # join [44, 10, 32, 32] (encode_basestring x # map encode_basestring xs) @ [10, 93]"
proof -
  have "concat (list_chunks [91, 10, 32, 32] [44, 10, 32, 32]
                  (map (\<lambda>v. (v, iterencode (Suc 0) v)) (map JStr (x # xs))))
      = [91, 10, 32, 32] @ join [44, 10, 32, 32] (map encode_basestring (x # xs))"
    by (rule list_chunks_strings)
  then show ?thesis
    by (simp add: json_dumps_def newline_indent_def numeral_2_eq_2 del: join.simps list_chunks.simps)
qed

lemma loads_dumps_strings:
  "json_loads (json_dumps (JArr (map JStr xs))) = Some (JArr (map JStr xs))"
proof (cases xs)
  case Nil
  then show ?thesis
    by (simp add: json_loads_def json_dumps_def str_def scan_once.simps skip_ws_def is_ws_def)
next
  case (Cons x xs')
  let ?body = "join [44, 10, 32, 32] (encode_basestring x # map encode_basestring xs') @ 10 # 93 # []"
  have d: "json_dumps (JArr (map JStr xs)) = 91 # 10 # 32 # 32 # ?body"
    unfolding Cons by (rule dumps_strings)
  have sk: "skip_ws (10 # 32 # 32 # ?body) = ?body"
    by (simp only: skip_ws_space skip_ws_join)
  have t1: "take (Suc 0) ?body = [34]"
    unfolding join_encode_Cons by simp
  have arr: "JSONArray [] ?body = Some (map JStr xs, [])"
    using JSONArray_strings [of "[]" x xs' "[]"] Cons by simp
  have "scan_once (91 # 10 # 32 # 32 # ?body) = Some (JArr (map JStr xs), [])"
    by (subst scan_once.simps) (simp add: sk t1 arr del: join.simps take_append append.simps)
  then show ?thesis
    unfolding d by (simp add: json_loads_def skip_ws_stop is_ws_def skip_ws_def [of "[]"])
qed

lemma newline_indent_eval:
  "newline_indent 0 = [10]"
  "newline_indent (Suc n) = newline_indent n @ [32, 32]"
proof -
  show "newline_indent 0 = [10]" by (simp add: newline_indent_def)
  have "replicate (2 * Suc n) (32::nat) = replicate (2 * n) 32 @ replicate 2 32"
    by (simp add: replicate_add [symmetric])
  then show "newline_indent (Suc n) = newline_indent n @ [32, 32]"
    by (simp add: newline_indent_def numeral_2_eq_2)
qed

lemmas json_eval = json_loads_def skip_ws_def is_ws_def scan_once.simps JSONArray.simps
  JSONObject.simps startswith_def match_number_def match_integer_def match_frac_def
  match_exp_def is_digit_def dict_of_def

lemmas dumps_eval = json_dumps_def newline_indent_eval encode_basestring_def escape_char_def

lemmas text_eval = candidate_sentences_def strip_def isspace_def

text \<open>
  An example with a dict and a nested list: the chunks, and the text they make, which is
  the object with the member \<open>a\<close> holding the list of \<open>1\<close> and the string \<open>x\<close>, indented by
  two spaces a level.
\<close>

lemma json_dumps_example:
  "iterencode 0 (JObj [(str ''a'', JArr [JNum (str ''1''), JStr (str ''x'')])])
     = [[123], [10, 32, 32], [34, 97, 34], [58, 32], [91, 10, 32, 32, 32, 32, 49],
        [44, 10, 32, 32, 32, 32, 34, 120, 34], [10, 32, 32], [93], [10], [125]]
   \<and> json_dumps (JObj [(str ''a'', JArr [JNum (str ''1''), JStr (str ''x'')])])
     = [123, 10, 32, 32, 34, 97, 34, 58, 32, 91, 10, 32, 32, 32, 32, 49,
        44, 10, 32, 32, 32, 32, 34, 120, 34, 10, 32, 32, 93, 10, 125]"
  by (simp add: str_def dumps_eval)

section \<open>When a write succeeds\<close>

lemma encodable_Nil [simp]: "encodable []"
  by (simp add: encodable_def)

lemma encodable_Cons [simp]: "encodable (c # s) \<longleftrightarrow> encodable_char c \<and> encodable s"
  by (simp add: encodable_def)

lemma encodable_append [simp]: "encodable (a @ b) \<longleftrightarrow> encodable a \<and> encodable b"
  by (simp add: encodable_def)

lemma encodable_set: "encodable s \<longleftrightarrow> (\<forall>c \<in> set s. encodable_char c)"
  by (simp add: encodable_def list_all_iff)

lemma encodable_concat: "list_all encodable cs \<Longrightarrow> encodable (concat cs)"
  by (induction cs) simp_all

lemma encodable_str: "encodable (str s)"
proof -
  have "encodable_char (of_char c)" for c :: char
  proof -
    have "(of_char c :: nat) < 256"
      by (rule nat_of_char_less_256)
    then have "(of_char c :: nat) < 55296" by linarith
    then show ?thesis by (simp add: encodable_char_def)
  qed
  then show ?thesis
    by (simp add: encodable_set str_def)
qed

lemma encodable_hexdigit: "d < 16 \<Longrightarrow> encodable_char (hexdigit d)"
  by (simp add: hexdigit_def encodable_char_def)

lemma encodable_escape_char: "encodable_char c \<Longrightarrow> encodable (escape_char c)"
proof (cases "c < 32")
  case True
  then have "c div 16 < 16" by simp
  then have h1: "encodable_char (hexdigit (c div 16))" by (rule encodable_hexdigit)
  have "c mod 16 < 16" by simp
  then have h2: "encodable_char (hexdigit (c mod 16))" by (rule encodable_hexdigit)
  have small: "encodable_char 92" "encodable_char 117" "encodable_char 48" "encodable_char 34"
    "encodable_char 110" "encodable_char 114" "encodable_char 116" "encodable_char 98"
    "encodable_char 102"
    by (simp_all add: encodable_char_def)
  show ?thesis
    using True by (simp add: escape_char_def h1 h2 small)
next
  case False
  assume "encodable_char c"
  with False show ?thesis
    by (simp add: escape_char_def encodable_char_def)
qed

lemma encodable_encode_basestring: "encodable s \<Longrightarrow> encodable (encode_basestring s)"
proof -
  have "encodable s \<Longrightarrow> encodable (concat (map escape_char s))"
    by (induction s) (simp_all add: encodable_escape_char)
  then show "encodable s \<Longrightarrow> encodable (encode_basestring s)"
    by (simp add: encode_basestring_def encodable_char_def)
qed

lemma encodable_newline_indent: "encodable (newline_indent n)"
  by (simp add: newline_indent_def encodable_set encodable_char_def)

lemma list_chunks_encodable:
  assumes "encodable buf" and "encodable sep"
    and "\<forall>p \<in> set ps. list_all encodable (snd p)"
  shows "list_all encodable (list_chunks buf sep ps)"
  using assms
proof (induction ps arbitrary: buf)
  case Nil
  then show ?case by simp
next
  case (Cons p ps)
  obtain v cs where p: "p = (v, cs)" by (cases p)
  from Cons.prems p have cs: "list_all encodable cs" by simp
  have rest: "list_all encodable (list_chunks sep sep ps)"
    using Cons.prems by (intro Cons.IH) simp_all
  show ?case
    using Cons.prems(1) cs rest by (cases v) (simp_all add: p encodable_concat)
qed

lemma dict_chunks_encodable:
  assumes "encodable sep"
    and "\<forall>p \<in> set ps. encodable (fst p) \<and> list_all encodable (snd p)"
  shows "list_all encodable (dict_chunks first sep ps)"
  using assms
proof (induction ps arbitrary: first)
  case Nil
  then show ?case by simp
next
  case (Cons p ps)
  obtain key cs where p: "p = (key, cs)" by (cases p)
  have rest: "list_all encodable (dict_chunks False sep ps)"
    using Cons.prems by (intro Cons.IH) simp_all
  show ?case
    using Cons.prems rest by (simp add: p encodable_encode_basestring encodable_char_def)
qed

lemma iterencode_encodable:
  "encodable_json obj \<Longrightarrow> list_all encodable (iterencode level obj)"
proof (induction obj arbitrary: level)
  case JNull
  show ?case by (simp add: encodable_str)
next
  case (JBool b)
  show ?case by (simp add: encodable_str)
next
  case (JNum lexeme)
  then show ?case by simp
next
  case (JStr s)
  then show ?case by (simp add: encodable_encode_basestring)
next
  case (JArr lst)
  have items: "\<forall>p \<in> set (map (\<lambda>v. (v, iterencode (level + 1) v)) lst). list_all encodable (snd p)"
    using JArr by (auto simp: list_all_iff)
  have "list_all encodable
          (list_chunks ([91] @ newline_indent (level + 1)) ([44] @ newline_indent (level + 1))
             (map (\<lambda>v. (v, iterencode (level + 1) v)) lst))"
    by (rule list_chunks_encodable [OF _ _ items])
       (simp_all add: encodable_newline_indent encodable_char_def)
  then show ?case
    by (simp add: encodable_str encodable_newline_indent encodable_char_def)
next
  case (JObj dct)
  have members: "\<forall>p \<in> set (map (\<lambda>(key, v). (key, iterencode (level + 1) v)) dct).
                   encodable (fst p) \<and> list_all encodable (snd p)"
  proof
    fix p
    assume "p \<in> set (map (\<lambda>(key, v). (key, iterencode (level + 1) v)) dct)"
    then obtain key v where m: "(key, v) \<in> set dct" and p: "p = (key, iterencode (level + 1) v)"
      by auto
    from JObj.prems m have e: "encodable key" "encodable_json v"
      by (auto simp: list_all_iff)
    from JObj.IH [of "(key, v)" v "level + 1"] m e(2) have "list_all encodable (iterencode (level + 1) v)"
      by simp
    with e(1) p show "encodable (fst p) \<and> list_all encodable (snd p)" by simp
  qed
  have "list_all encodable
          (dict_chunks True ([44] @ newline_indent (level + 1))
             (map (\<lambda>(key, v). (key, iterencode (level + 1) v)) dct))"
    by (rule dict_chunks_encodable [OF _ members])
       (simp add: encodable_newline_indent encodable_char_def)
  then show ?case
    by (simp add: encodable_str encodable_newline_indent encodable_char_def)
qed

lemma json_dump_encodable:
  "encodable_json obj \<Longrightarrow> json_dump obj path files = (Inr (), files(path \<mapsto> Text (json_dumps obj)))"
  by (simp add: json_dump_def json_dumps_def iterencode_encodable)

lemma encodable_json_strings: "encodable_json (JArr (map JStr xs)) \<longleftrightarrow> list_all encodable xs"
  by (simp add: list_all_iff)

lemma encodable_strip: "encodable s \<Longrightarrow> encodable (strip s)"
proof -
  have "set (strip s) \<subseteq> set s"
    by (auto simp: strip_def dest!: set_dropWhileD)
  then show "encodable s \<Longrightarrow> encodable (strip s)"
    by (auto simp: encodable_set)
qed

lemma re_split_chars:
  "piece \<in> set (re_split st cur s) \<Longrightarrow> set piece \<subseteq> set cur \<union> set s"
proof (induction s arbitrary: st cur)
  case Nil
  then show ?case by simp
next
  case (Cons c cs)
  show ?case
  proof (cases "c = 32 \<and> st = AfterTerminal")
    case True
    with Cons.prems have "piece = cur \<or> piece \<in> set (re_split InGap [] cs)" by simp
    with Cons.IH [of InGap "[]"] show ?thesis by auto
  next
    case False
    show ?thesis
    proof (cases "c = 32 \<and> st = InGap")
      case True
      with False Cons.prems have "piece \<in> set (re_split InGap [] cs)" by simp
      with Cons.IH [of InGap "[]"] show ?thesis by auto
    next
      case no_gap: False
      with False Cons.prems have
        "piece \<in> set (re_split (if c = 46 \<or> c = 33 \<or> c = 63 then AfterTerminal else Plain) (cur @ [c]) cs)"
        by (auto split: if_splits)
      from Cons.IH [OF this] show ?thesis by auto
    qed
  qed
qed

lemma encodable_candidates: "encodable text \<Longrightarrow> list_all encodable (candidate_sentences text)"
proof -
  assume e: "encodable text"
  have "encodable (strip piece)" if "piece \<in> set (re_split Plain [] text)" for piece
  proof -
    from re_split_chars [OF that] e have "encodable piece"
      by (auto simp: encodable_set)
    then show ?thesis by (rule encodable_strip)
  qed
  then show ?thesis
    by (simp add: candidate_sentences_def list_all_iff)
qed

section \<open>The knowledge store\<close>

lemma loads_empty_list: "json_loads (str ''[]'') = Some (JArr [])"
  by (simp add: str_def json_loads_def skip_ws_def is_ws_def scan_once.simps)

lemma save_knowledge_strings:
  "list_all encodable corpus \<Longrightarrow>
     save_knowledge (JArr (map JStr corpus)) files
       = (Inr (), files(KNOWLEDGE_FILE \<mapsto> Text (json_dumps (JArr (map JStr corpus)))))"
  unfolding save_knowledge_def
  by (rule json_dump_encodable) (simp only: encodable_json_strings)

lemma load_after_save:
  "load_knowledge (files(KNOWLEDGE_FILE \<mapsto> Text (json_dumps (JArr (map JStr corpus)))))
     = (Inr (JArr (map JStr corpus)), files(KNOWLEDGE_FILE \<mapsto> Text (json_dumps (JArr (map JStr corpus)))))"
  by (simp add: load_knowledge_def read_text_def loads_dumps_strings)

lemma load_knowledge_absent:
  "files KNOWLEDGE_FILE = None \<Longrightarrow>
     load_knowledge files = (Inr (JArr (map JStr [])), files(KNOWLEDGE_FILE \<mapsto> Text (str ''[]'')))"
  by (simp add: load_knowledge_def read_text_def loads_empty_list)

lemma store_paths_differ: "KNOWLEDGE_FILE \<noteq> SESSION_FILE"
  by (simp add: KNOWLEDGE_FILE_def SESSION_FILE_def SESSIONS_DIR_def path_join_def str_def)

lemma corpus_items:
  "is_corpus (JArr items) \<Longrightarrow>
     items = map JStr (concat (map (\<lambda>x. case x of JStr s \<Rightarrow> [s] | _ \<Rightarrow> []) items))"
proof (induction items)
  case Nil
  then show ?case by simp
next
  case (Cons x items)
  then show ?case by (cases x) simp_all
qed

lemma stored_corpus_load:
  assumes "stored_corpus files = Some corpus"
  shows "load_knowledge files
     = (Inr (JArr (map JStr corpus)),
        if files KNOWLEDGE_FILE = None then files(KNOWLEDGE_FILE \<mapsto> Text (str ''[]'')) else files)"
proof (cases "files KNOWLEDGE_FILE")
  case None
  with assms have "corpus = []" by (simp add: stored_corpus_def)
  with None show ?thesis by (simp add: load_knowledge_absent)
next
  case (Some c)
  with assms obtain t items where t: "files KNOWLEDGE_FILE = Some (Text t)"
      and p: "json_loads t = Some (JArr items)" and c: "is_corpus (JArr items)"
      and r: "corpus = concat (map (\<lambda>x. case x of JStr s \<Rightarrow> [s] | _ \<Rightarrow> []) items)"
    by (auto simp: stored_corpus_def split: content.splits option.splits json.splits if_splits)
  from corpus_items [OF c] r have "items = map JStr corpus" by simp
  with t p show ?thesis by (simp add: load_knowledge_def read_text_def)
qed

lemma stored_corpus_absent: "stored_corpus Map.empty = Some []"
  by (simp add: stored_corpus_def)

text \<open>
  Claim C5, as amended. For every corpus, an ordered list of strings none of which holds
  a lone surrogate (a code point that UTF-8 cannot encode), and whatever the files held
  before: \<open>save_knowledge\<close> raises nothing, and \<open>load_knowledge\<close> then returns the same
  list of strings in the same order and leaves the files as the save left them.
\<close>

theorem save_load_roundtrip:
  assumes "list_all encodable corpus"
  shows "\<exists>files1. save_knowledge (JArr (map JStr corpus)) files = (Inr (), files1)
              \<and> load_knowledge files1 = (Inr (JArr (map JStr corpus)), files1)"
  using save_knowledge_strings [OF assms] load_after_save by simp

theorem save_load_roundtrip_witness:
  "\<exists>files1. save_knowledge (JArr (map JStr [str ''Hello world.'', [34, 233, 10, 8364, 128512]])) Map.empty
                = (Inr (), files1)
            \<and> load_knowledge files1
                = (Inr (JArr (map JStr [str ''Hello world.'', [34, 233, 10, 8364, 128512]])), files1)"
proof -
  have "list_all encodable [str ''Hello world.'', [34, 233, 10, 8364, 128512]]"
    by (simp add: encodable_str encodable_char_def)
  from save_load_roundtrip [OF this] show ?thesis .
qed

text \<open>
  The claim as stated fails: a Python string can hold a lone surrogate. For the corpus of
  \<open>ok\<close> and the string of the one code point U+D800, \<open>save_knowledge\<close> raises
  \<open>UnicodeEncodeError\<close> and leaves the knowledge file holding what was written before the
  second string, which is not JSON; \<open>load_knowledge\<close> then returns the empty list, not the
  corpus.
\<close>

theorem save_load_roundtrip_counterexample:
  "fst (save_knowledge (JArr (map JStr [str ''ok'', [55296]])) Map.empty) = Inl UnicodeEncodeError
   \<and> snd (save_knowledge (JArr (map JStr [str ''ok'', [55296]])) Map.empty) KNOWLEDGE_FILE
       = Some (Text [91, 10, 32, 32, 34, 111, 107, 34])
   \<and> fst (load_knowledge (snd (save_knowledge (JArr (map JStr [str ''ok'', [55296]])) Map.empty)))
       = Inr (JArr [])
   \<and> fst (load_knowledge (snd (save_knowledge (JArr (map JStr [str ''ok'', [55296]])) Map.empty)))
       \<noteq> Inr (JArr (map JStr [str ''ok'', [55296]]))"
proof -
  have s: "save_knowledge (JArr (map JStr [str ''ok'', [55296]])) Map.empty
      = (Inl UnicodeEncodeError, Map.empty(KNOWLEDGE_FILE \<mapsto> Text [91, 10, 32, 32, 34, 111, 107, 34]))"
    by (simp add: save_knowledge_def json_dump_def str_def newline_indent_eval encode_basestring_def
          escape_char_def encodable_char_def)
  have p: "json_loads [91, 10, 32, 32, 34, 111, 107, 34] = None"
    by (simp add: json_eval)
  show ?thesis
    unfolding s by (simp add: load_knowledge_def read_text_def p)
qed

text \<open>
  Claim C6, as amended. When the knowledge file holds text that is not valid JSON,
  \<open>load_knowledge\<close> returns the empty corpus, raises nothing and leaves the files as they
  are; when the file is absent, it creates it holding \<open>[]\<close> and returns the empty corpus.
  (A file that holds valid JSON of another shape than a list of strings, or bytes that are
  not UTF-8, is not covered: see the counterexample.)
\<close>

theorem load_knowledge_tolerant:
  "(files KNOWLEDGE_FILE = Some (Text t) \<and> json_loads t = None
      \<longrightarrow> load_knowledge files = (Inr (JArr []), files))
   \<and> (files KNOWLEDGE_FILE = None
      \<longrightarrow> load_knowledge files = (Inr (JArr []), files(KNOWLEDGE_FILE \<mapsto> Text (str ''[]''))))"
  by (simp add: load_knowledge_def read_text_def loads_empty_list)

theorem load_knowledge_tolerant_witness:
  "load_knowledge (Map.empty(KNOWLEDGE_FILE \<mapsto> Text (str ''[1, oops'')))
     = (Inr (JArr []), Map.empty(KNOWLEDGE_FILE \<mapsto> Text (str ''[1, oops'')))
   \<and> load_knowledge Map.empty = (Inr (JArr []), Map.empty(KNOWLEDGE_FILE \<mapsto> Text (str ''[]'')))"
proof -
  have bad: "json_loads (str ''[1, oops'') = None"
    by (simp add: str_def json_eval)
  from load_knowledge_tolerant [of "Map.empty(KNOWLEDGE_FILE \<mapsto> Text (str ''[1, oops''))" "str ''[1, oops''"]
       load_knowledge_tolerant [of Map.empty] bad
  show ?thesis by simp
qed

text \<open>
  The claim as stated fails: the text \<open>42\<close> is not a corpus, and \<open>load_knowledge\<close> returns
  the number, not the empty corpus; bytes that are not UTF-8 make it raise
  \<open>UnicodeDecodeError\<close>.
\<close>

theorem load_knowledge_tolerant_counterexample:
  "\<not> (case json_loads (str ''42'') of Some data \<Rightarrow> is_corpus data | None \<Rightarrow> False)
   \<and> fst (load_knowledge (Map.empty(KNOWLEDGE_FILE \<mapsto> Text (str ''42'')))) = Inr (JNum (str ''42''))
   \<and> fst (load_knowledge (Map.empty(KNOWLEDGE_FILE \<mapsto> Text (str ''42'')))) \<noteq> Inr (JArr [])
   \<and> fst (load_knowledge (Map.empty(KNOWLEDGE_FILE \<mapsto> Garbled []))) = Inl UnicodeDecodeError"
proof -
  have n: "json_loads (str ''42'') = Some (JNum (str ''42''))"
    by (simp add: str_def json_eval)
  show ?thesis
    by (simp add: load_knowledge_def read_text_def n)
qed

section \<open>Ingestion\<close>

lemma absent_from_corpus:
  "absent_from (JArr (map JStr k)) ss = Inr (filter (\<lambda>s. s \<notin> set k) ss)"
  by (induction ss) (auto simp: image_iff)

lemma add_to_knowledge_on_corpus:
  assumes "load_knowledge files = (Inr (JArr (map JStr corpus)), files0)"
    and "list_all encodable corpus"
    and "list_all encodable (filter (\<lambda>s. s \<notin> set corpus) (candidate_sentences text))"
  shows "add_to_knowledge text files
     = (Inr (length (filter (\<lambda>s. s \<notin> set corpus) (candidate_sentences text))),
        files0(KNOWLEDGE_FILE \<mapsto> Text (json_dumps
          (JArr (map JStr (corpus @ filter (\<lambda>s. s \<notin> set corpus) (candidate_sentences text)))))))"
proof -
  let ?new = "filter (\<lambda>s. s \<notin> set corpus) (candidate_sentences text)"
  have "list_all encodable (corpus @ ?new)" using assms(2,3) by simp
  from save_knowledge_strings [OF this]
  have "save_knowledge (JArr (map JStr corpus @ map JStr ?new)) files0
      = (Inr (), files0(KNOWLEDGE_FILE \<mapsto> Text (json_dumps (JArr (map JStr (corpus @ ?new))))))"
    by simp
  then show ?thesis
    by (simp add: add_to_knowledge_def assms(1) absent_from_corpus Let_def del: map_append)
qed

text \<open>
  Claim C3, as amended. For every input text that holds no lone surrogate and every
  starting corpus of strings that hold none (the knowledge file is absent, or holds a JSON
  list of such strings): \<open>add_to_knowledge\<close> returns the number of sentences of the text
  that the corpus did not hold, and running it on the same text a second time, right
  after the first run, returns the count 0 and leaves the files, and so the corpus,
  exactly as the first run left them. The corpus after both runs is the starting corpus
  followed by the sentences of the text that it did not hold.
\<close>

theorem add_to_knowledge_idempotent:
  assumes "stored_corpus files = Some corpus"
    and "list_all encodable corpus"
    and "encodable text"
  shows "\<exists>added files1.
           add_to_knowledge text files = (Inr added, files1)
         \<and> added = length (filter (\<lambda>s. s \<notin> set corpus) (candidate_sentences text))
         \<and> add_to_knowledge text files1 = (Inr 0, files1)
         \<and> load_knowledge files1
             = (Inr (JArr (map JStr (corpus @ filter (\<lambda>s. s \<notin> set corpus) (candidate_sentences text)))), files1)"
proof -
  let ?ss = "candidate_sentences text"
  let ?new = "filter (\<lambda>s. s \<notin> set corpus) ?ss"
  let ?files0 = "if files KNOWLEDGE_FILE = None then files(KNOWLEDGE_FILE \<mapsto> Text (str ''[]'')) else files"
  let ?files1 = "?files0(KNOWLEDGE_FILE \<mapsto> Text (json_dumps (JArr (map JStr (corpus @ ?new)))))"
  have ss: "list_all encodable ?ss"
    by (rule encodable_candidates [OF assms(3)])
  then have new: "list_all encodable ?new"
    by (simp add: list_all_iff)
  have first: "add_to_knowledge text files = (Inr (length ?new), ?files1)"
    by (rule add_to_knowledge_on_corpus [OF stored_corpus_load [OF assms(1)] assms(2) new])
  have load1: "load_knowledge ?files1 = (Inr (JArr (map JStr (corpus @ ?new))), ?files1)"
    by (rule load_after_save)
  have none: "filter (\<lambda>s. s \<notin> set (corpus @ ?new)) ?ss = []"
    by (auto simp: filter_empty_conv)
  have all: "list_all encodable (corpus @ ?new)"
    using assms(2) new by simp
  have "add_to_knowledge text ?files1
      = (Inr (length (filter (\<lambda>s. s \<notin> set (corpus @ ?new)) ?ss)),
         ?files1(KNOWLEDGE_FILE \<mapsto> Text (json_dumps
           (JArr (map JStr ((corpus @ ?new) @ filter (\<lambda>s. s \<notin> set (corpus @ ?new)) ?ss))))))"
    by (rule add_to_knowledge_on_corpus [OF load1 all]) (unfold none, simp)
  then have second: "add_to_knowledge text ?files1 = (Inr 0, ?files1)"
    unfolding none by (simp del: map_append)
  from first second load1 show ?thesis by blast
qed

theorem add_to_knowledge_idempotent_witness:
  "\<exists>added files1.
       add_to_knowledge (str ''Hello world. Bye now, friend.'') Map.empty = (Inr added, files1)
     \<and> added = length (filter (\<lambda>s. s \<notin> set []) (candidate_sentences (str ''Hello world. Bye now, friend.'')))
     \<and> add_to_knowledge (str ''Hello world. Bye now, friend.'') files1 = (Inr 0, files1)
     \<and> load_knowledge files1
         = (Inr (JArr (map JStr ([] @ filter (\<lambda>s. s \<notin> set [])
              (candidate_sentences (str ''Hello world. Bye now, friend.''))))), files1)"
proof -
  have a: "stored_corpus Map.empty = Some []" by (rule stored_corpus_absent)
  have b: "list_all encodable []" by simp
  have c: "encodable (str ''Hello world. Bye now, friend.'')" by (rule encodable_str)
  from add_to_knowledge_idempotent [OF a b c] show ?thesis .
qed

text \<open>
  The claim as stated fails when a string holds a lone surrogate. Ingesting the text made
  of U+D800 and \<open> is alone.\<close> into the empty corpus raises \<open>UnicodeEncodeError\<close>, and so does
  the second run: it does not return 0. And when the knowledge file holds the list of the
  one string U+D800, written as an escape, ingesting \<open>Hello world.\<close> raises the first time
  and leaves the file empty; the second run then finds an empty corpus, adds the sentence
  and returns 1.
\<close>

theorem add_to_knowledge_idempotent_counterexample:
  "fst (add_to_knowledge (55296 # str '' is alone.'') Map.empty) = Inl UnicodeEncodeError
   \<and> fst (add_to_knowledge (55296 # str '' is alone.'')
            (snd (add_to_knowledge (55296 # str '' is alone.'') Map.empty))) = Inl UnicodeEncodeError
   \<and> stored_corpus (Map.empty(KNOWLEDGE_FILE \<mapsto> Text [91, 34, 92, 117, 100, 56, 48, 48, 34, 93]))
       = Some [[55296]]
   \<and> add_to_knowledge (str ''Hello world.'')
         (Map.empty(KNOWLEDGE_FILE \<mapsto> Text [91, 34, 92, 117, 100, 56, 48, 48, 34, 93]))
       = (Inl UnicodeEncodeError, Map.empty(KNOWLEDGE_FILE \<mapsto> Text []))
   \<and> fst (add_to_knowledge (str ''Hello world.'') (Map.empty(KNOWLEDGE_FILE \<mapsto> Text []))) = Inr 1"
proof -
  let ?t = "55296 # str '' is alone.''"
  let ?held = "Map.empty(KNOWLEDGE_FILE \<mapsto> Text [91, 34, 92, 117, 100, 56, 48, 48, 34, 93])"
  have cs: "candidate_sentences ?t = [?t]"
    by (simp add: str_def text_eval)
  have hw: "candidate_sentences (str ''Hello world.'') = [str ''Hello world.'']"
    by (simp add: str_def text_eval)
  have empty: "json_loads [] = None"
    by (simp add: json_eval)
  have sv: "save_knowledge (JArr [JStr ?t]) files
      = (Inl UnicodeEncodeError, files(KNOWLEDGE_FILE \<mapsto> Text []))" for files
    by (simp add: save_knowledge_def json_dump_def newline_indent_eval encode_basestring_def
          escape_char_def encodable_char_def)
  have sv2: "save_knowledge (JArr [JStr [55296], JStr (str ''Hello world.'')]) files
      = (Inl UnicodeEncodeError, files(KNOWLEDGE_FILE \<mapsto> Text []))" for files
    by (simp add: save_knowledge_def json_dump_def newline_indent_eval encode_basestring_def
          escape_char_def encodable_char_def)
  have first: "add_to_knowledge ?t Map.empty = (Inl UnicodeEncodeError, Map.empty(KNOWLEDGE_FILE \<mapsto> Text []))"
    by (simp add: add_to_knowledge_def cs load_knowledge_absent sv)
  have load2: "load_knowledge (Map.empty(KNOWLEDGE_FILE \<mapsto> Text []))
      = (Inr (JArr (map JStr [])), Map.empty(KNOWLEDGE_FILE \<mapsto> Text []))"
    by (simp add: load_knowledge_def read_text_def empty)
  have second: "fst (add_to_knowledge ?t (Map.empty(KNOWLEDGE_FILE \<mapsto> Text []))) = Inl UnicodeEncodeError"
    using load2 by (simp add: add_to_knowledge_def cs sv)
  have p: "json_loads [91, 34, 92, 117, 100, 56, 48, 48, 34, 93] = Some (JArr [JStr [55296]])"
    by (simp add: json_eval backslash_def decode_uXXXX_def hex_val_def)
  have held: "stored_corpus ?held = Some [[55296]]"
    by (simp add: stored_corpus_def p)
  have ne: "str ''Hello world.'' \<noteq> [55296]"
    by (simp add: str_def)
  have third: "add_to_knowledge (str ''Hello world.'') ?held
       = (Inl UnicodeEncodeError, Map.empty(KNOWLEDGE_FILE \<mapsto> Text []))"
    using stored_corpus_load [OF held] ne by (simp add: add_to_knowledge_def hw sv2)
  have e: "list_all encodable (filter (\<lambda>s. s \<notin> set []) (candidate_sentences (str ''Hello world.'')))"
    by (simp add: hw encodable_str)
  have fourth: "fst (add_to_knowledge (str ''Hello world.'') (Map.empty(KNOWLEDGE_FILE \<mapsto> Text []))) = Inr 1"
    by (simp add: add_to_knowledge_on_corpus [OF load2 _ e] hw)
  from first second held third fourth show ?thesis by simp
qed

lemma segmentation_candidates:
  "candidate_sentences (str ''Hello world. This is fine! Ok?'')
     = [str ''Hello world.'', str ''This is fine!'']"
  by (simp add: str_def text_eval)

lemma segmentation_stored:
  "add_to_knowledge (str ''Hello world. This is fine! Ok?'') Map.empty
      = (Inr 2, Map.empty(KNOWLEDGE_FILE \<mapsto> Text (json_dumps
                  (JArr (map JStr [str ''Hello world.'', str ''This is fine!''])))))"
proof -
  have init: "load_knowledge Map.empty
      = (Inr (JArr (map JStr [])), Map.empty(KNOWLEDGE_FILE \<mapsto> Text (str ''[]'')))"
    by (rule load_knowledge_absent) simp
  have e: "list_all encodable (filter (\<lambda>s. s \<notin> set [])
             (candidate_sentences (str ''Hello world. This is fine! Ok?'')))"
    by (simp add: segmentation_candidates encodable_str)
  show ?thesis
    by (simp add: add_to_knowledge_on_corpus [OF init _ e] segmentation_candidates)
qed

text \<open>
  Claim C4, as amended. The text \<open>Hello world. This is fine! Ok?\<close> is split, at the spaces
  that follow a sentence-terminal mark, into the three candidates \<open>Hello world.\<close>,
  \<open>This is fine!\<close> and \<open>Ok?\<close>, each keeping its terminator. The candidate \<open>Ok?\<close> has
  trimmed length 3, which is not more than 5, and is discarded. Ingesting the text into an
  empty corpus adds 2 sentences and stores exactly \<open>Hello world.\<close> and \<open>This is fine!\<close>.
\<close>

theorem segmentation_example:
  "re_split Plain [] (str ''Hello world. This is fine! Ok?'')
     = [str ''Hello world.'', str ''This is fine!'', str ''Ok?'']
   \<and> length (strip (str ''Ok?'')) = 3
   \<and> candidate_sentences (str ''Hello world. This is fine! Ok?'')
     = [str ''Hello world.'', str ''This is fine!'']
   \<and> fst (add_to_knowledge (str ''Hello world. This is fine! Ok?'') Map.empty) = Inr 2
   \<and> fst (load_knowledge (snd (add_to_knowledge (str ''Hello world. This is fine! Ok?'') Map.empty)))
     = Inr (JArr [JStr (str ''Hello world.''), JStr (str ''This is fine!'')])"
proof -
  have split: "re_split Plain [] (str ''Hello world. This is fine! Ok?'')
     = [str ''Hello world.'', str ''This is fine!'', str ''Ok?'']"
    by (simp add: str_def)
  have short: "length (strip (str ''Ok?'')) = 3"
    by (simp add: str_def text_eval)
  have load: "fst (load_knowledge (snd (add_to_knowledge (str ''Hello world. This is fine! Ok?'') Map.empty)))
     = Inr (JArr [JStr (str ''Hello world.''), JStr (str ''This is fine!'')])"
    unfolding segmentation_stored snd_conv load_after_save by simp
  from split short segmentation_candidates segmentation_stored load show ?thesis by simp
qed

text \<open>The claim as stated fails: the corpus read back does not hold the three sentences.\<close>

theorem segmentation_example_counterexample:
  "fst (load_knowledge (snd (add_to_knowledge (str ''Hello world. This is fine! Ok?'') Map.empty)))
     \<noteq> Inr (JArr [JStr (str ''Hello world.''), JStr (str ''This is fine!''), JStr (str ''Ok?'')])"
  unfolding segmentation_stored snd_conv load_after_save by simp

text \<open>
  When no sentence occurs twice in the text, ingestion keeps a corpus without duplicates
  free of them.
\<close>

lemma add_to_knowledge_distinct:
  assumes "load_knowledge files = (Inr (JArr (map JStr corpus)), files0)"
    and "list_all encodable corpus" and "encodable text"
    and "distinct corpus" and "distinct (candidate_sentences text)"
  shows "load_knowledge (snd (add_to_knowledge text files))
     = (Inr (JArr (map JStr (corpus @ filter (\<lambda>s. s \<notin> set corpus) (candidate_sentences text)))),
        snd (add_to_knowledge text files))
   \<and> distinct (corpus @ filter (\<lambda>s. s \<notin> set corpus) (candidate_sentences text))"
proof -
  have "list_all encodable (candidate_sentences text)"
    by (rule encodable_candidates [OF assms(3)])
  then have new: "list_all encodable (filter (\<lambda>s. s \<notin> set corpus) (candidate_sentences text))"
    by (simp add: list_all_iff)
  show ?thesis
    using assms(4,5)
    by (auto simp: add_to_knowledge_on_corpus [OF assms(1,2) new] load_after_save simp del: map_append)
qed

text \<open>
  Claim C2 says that the corpus never holds the same string twice, also when a sentence
  occurs twice in one ingested text. The code compares every candidate with the corpus
  as it was loaded, not with the candidates it has already accepted: ingesting
  \<open>Hello world. Hello world.\<close> into the empty corpus adds 2 sentences, and the corpus
  read back holds \<open>Hello world.\<close> twice.
\<close>

theorem add_to_knowledge_repeated_sentence:
  "fst (load_knowledge Map.empty) = Inr (JArr [])
   \<and> fst (add_to_knowledge (str ''Hello world. Hello world.'') Map.empty) = Inr 2
   \<and> fst (load_knowledge (snd (add_to_knowledge (str ''Hello world. Hello world.'') Map.empty)))
     = Inr (JArr [JStr (str ''Hello world.''), JStr (str ''Hello world.'')])
   \<and> \<not> distinct [str ''Hello world.'', str ''Hello world.'']"
proof -
  have init: "load_knowledge Map.empty
      = (Inr (JArr (map JStr [])), Map.empty(KNOWLEDGE_FILE \<mapsto> Text (str ''[]'')))"
    by (rule load_knowledge_absent) simp
  have cs: "candidate_sentences (str ''Hello world. Hello world.'') = [str ''Hello world.'', str ''Hello world.'']"
    by (simp add: str_def text_eval)
  have e: "list_all encodable (filter (\<lambda>s. s \<notin> set [])
             (candidate_sentences (str ''Hello world. Hello world.'')))"
    by (simp add: cs encodable_str)
  have add: "add_to_knowledge (str ''Hello world. Hello world.'') Map.empty
      = (Inr 2, Map.empty(KNOWLEDGE_FILE \<mapsto> Text (json_dumps
                  (JArr (map JStr [str ''Hello world.'', str ''Hello world.''])))))"
    by (simp add: add_to_knowledge_on_corpus [OF init _ e] cs)
  have load: "fst (load_knowledge (snd (add_to_knowledge (str ''Hello world. Hello world.'') Map.empty)))
     = Inr (JArr [JStr (str ''Hello world.''), JStr (str ''Hello world.'')])"
    unfolding add snd_conv load_after_save by simp
  from init add load show ?thesis by simp
qed

section \<open>The chat route\<close>

lemma dropWhile_all: "\<forall>c \<in> set s. P c \<Longrightarrow> dropWhile P s = []"
  by (induction s) auto

lemma strip_blank: "\<forall>c \<in> set s. isspace c \<Longrightarrow> strip s = []"
  by (simp add: strip_def dropWhile_all del: dropWhile_eq_Nil_conv)

text \<open>
  Claim C8. For every \<open>/chat\<close> request whose message is empty or consists only of
  whitespace, whatever the files hold: the handler returns the canned reply
  \<open>Say something...\<close> and leaves every file as it was (the knowledge corpus, the session
  log and every other file).
\<close>

theorem chat_blank_message:
  "\<forall>c \<in> set message. isspace c \<Longrightarrow>
     chat u create_completion now message files = (Inr (reply_json (str ''Say something...'')), files)"
  by (simp add: chat_def strip_blank)

theorem chat_blank_message_witness:
  "isspace 32 \<and> isspace 9 \<and> isspace 10
   \<and> chat ascii_ucd (\<lambda>p. Inr (str ''hello'')) (\<lambda>n. str ''2025-01-01T00:00:00'') [32, 9, 10, 32]
        (Map.empty(KNOWLEDGE_FILE \<mapsto> Text (str ''[]'')))
      = (Inr (reply_json (str ''Say something...'')), Map.empty(KNOWLEDGE_FILE \<mapsto> Text (str ''[]'')))"
proof -
  have sp: "isspace 32" "isspace 9" "isspace 10"
    by (simp_all add: isspace_def)
  then have blank: "\<forall>c \<in> set [32, 9, 10, 32]. isspace c"
    by simp
  have "chat ascii_ucd (\<lambda>p. Inr (str ''hello'')) (\<lambda>n. str ''2025-01-01T00:00:00'') [32, 9, 10, 32]
        (Map.empty(KNOWLEDGE_FILE \<mapsto> Text (str ''[]'')))
      = (Inr (reply_json (str ''Say something...'')), Map.empty(KNOWLEDGE_FILE \<mapsto> Text (str ''[]'')))"
    by (rule chat_blank_message [OF blank])
  with sp show ?thesis by (intro conjI)
qed

lemma stored_corpus_saved:
  "files KNOWLEDGE_FILE = Some (Text (json_dumps (JArr (map JStr corpus)))) \<Longrightarrow>
     stored_corpus files = Some corpus"
proof -
  have a: "list_all (\<lambda>x. case x of JStr s \<Rightarrow> True | _ \<Rightarrow> False) (map JStr corpus)"
    by (simp add: list_all_iff)
  have b: "concat (map (\<lambda>x. case x of JStr s \<Rightarrow> [s] | _ \<Rightarrow> []) (map JStr corpus)) = corpus"
    by (induction corpus) simp_all
  assume "files KNOWLEDGE_FILE = Some (Text (json_dumps (JArr (map JStr corpus))))"
  then show ?thesis
    by (simp add: stored_corpus_def loads_dumps_strings a b del: map_map)
qed

lemma sentences_of_strings: "sentences_of (JArr (map JStr ss)) = Inr ss"
proof -
  have a: "list_all (\<lambda>x. case x of JStr s \<Rightarrow> True | _ \<Rightarrow> False) (map JStr ss)"
    by (simp add: list_all_iff)
  have b: "concat (map (\<lambda>x. case x of JStr s \<Rightarrow> [s] | _ \<Rightarrow> []) (map JStr ss)) = ss"
    by (induction ss) simp_all
  show ?thesis
    by (simp add: a b del: map_map)
qed

lemma stored_session_load:
  assumes "stored_session files = Some turns"
  shows "load_session files = Inr (JArr turns)" and "list_all is_turn turns"
proof -
  show "load_session files = Inr (JArr turns)"
  proof (cases "files SESSION_FILE")
    case None
    with assms show ?thesis by (simp add: stored_session_def load_session_def)
  next
    case (Some c)
    with assms show ?thesis
      by (auto simp: stored_session_def load_session_def read_text_def
            split: content.splits option.splits json.splits if_splits)
  qed
  show "list_all is_turn turns"
    using assms
    by (auto simp: stored_session_def split: content.splits option.splits json.splits if_splits)
qed

lemma encodable_update:
  "list_all (\<lambda>(key, v). encodable key \<and> encodable_json v) d \<Longrightarrow> encodable k \<Longrightarrow> encodable_json x
     \<Longrightarrow> list_all (\<lambda>(key, v). encodable key \<and> encodable_json v) (AList.update k x d)"
  by (induction d) auto

lemma backfill_turns:
  assumes "list_all is_turn msgs" and "list_all encodable_json msgs" and "\<forall>n. encodable (now n)"
  shows "\<exists>msgs1. backfill now n msgs = Inr msgs1 \<and> list_all encodable_json msgs1"
  using assms(1,2)
proof (induction msgs arbitrary: n)
  case Nil
  then show ?case by simp
next
  case (Cons m msgs)
  then obtain d where m: "m = JObj d" by (cases m) auto
  from Cons.prems have rest: "list_all is_turn msgs" "list_all encodable_json msgs"
    by simp_all
  from Cons.IH [OF rest, of n] obtain a where a: "backfill now n msgs = Inr a" "list_all encodable_json a"
    by blast
  from Cons.IH [OF rest, of "Suc n"] obtain b
    where b: "backfill now (Suc n) msgs = Inr b" "list_all encodable_json b"
    by blast
  from Cons.prems(2) m have d: "list_all (\<lambda>(key, v). encodable key \<and> encodable_json v) d"
    by simp
  have "encodable timestamp_key"
    unfolding timestamp_key_def by (rule encodable_str)
  moreover have "encodable_json (JStr (now n))"
    using assms(3) by simp
  ultimately have "encodable_json (JObj (AList.update timestamp_key (JStr (now n)) d))"
    using encodable_update [OF d] by simp
  with m a b Cons.prems(2) show ?case
    by (simp split: bool.splits)
qed

lemma json_dump_elsewhere: "other \<noteq> path \<Longrightarrow> snd (json_dump obj path files) other = files other"
  by (simp add: json_dump_def Let_def)

text \<open>
  Claim C7, as amended. For every user utterance that is not empty after trimming, holds
  no lone surrogate and has no qualifying knowledge match; a knowledge file that is absent
  or holds a JSON list of strings; and a session file that is absent or holds a JSON list
  of turns (objects whose fields are strings) without a lone surrogate: if the completion
  service raises an error whose description \<open>e\<close> holds no lone surrogate, \<open>chat\<close> raises
  nothing and answers with the body whose \<open>from\<close> is \<open>IA\<close> and whose \<open>reply\<close> is the warning
  sign (U+26A0 U+FE0F) followed by \<open> Model error: \<close> and \<open>e\<close>. The timestamps that the clock
  prints hold no lone surrogate either (\<open>isoformat()\<close> prints ASCII).
\<close>

theorem chat_model_error:
  assumes "strip message \<noteq> []"
    and "encodable message"
    and "stored_corpus files = Some sentences"
    and "best_knowledge_match u (strip message) sentences = None"
    and "create_completion (str ''[INST] '' @ strip message @ str '' [/INST]'') = Inl e"
    and "encodable e"
    and "stored_session files = Some turns"
    and "list_all encodable_json turns"
    and "\<forall>n. encodable (now n)"
  shows "\<exists>files2. chat u create_completion now message files
           = (Inr (JObj [(str ''from'', JStr (str ''IA'')),
                         (str ''reply'', JStr ([9888, 65039] @ str '' Model error: '' @ e))]), files2)"
proof -
  let ?files1 = "if files KNOWLEDGE_FILE = None then files(KNOWLEDGE_FILE \<mapsto> Text (str ''[]'')) else files"
  let ?reply = "9888 # 65039 # str '' Model error: '' @ e"
  let ?turn = "JObj [(str ''user'', JStr (strip message)), (str ''bot'', JStr ?reply),
                     (timestamp_key, JStr (now 0))]"
  have k: "load_knowledge files = (Inr (JArr (map JStr sentences)), ?files1)"
    by (rule stored_corpus_load [OF assms(3)])
  have "files SESSION_FILE = ?files1 SESSION_FILE"
    using store_paths_differ by simp
  then have "load_session ?files1 = load_session files"
    by (simp add: load_session_def read_text_def)
  then have l: "load_session ?files1 = Inr (JArr turns)"
    using stored_session_load(1) [OF assms(7)] by simp
  have t: "list_all is_turn (turns @ [?turn])"
    using stored_session_load(2) [OF assms(7)] by simp
  have r: "encodable ?reply"
    using assms(6) by (simp add: encodable_str encodable_char_def)
  have "encodable_json ?turn"
    using assms(9) r encodable_strip [OF assms(2)]
    by (simp add: encodable_str timestamp_key_def)
  then have c: "list_all encodable_json (turns @ [?turn])"
    using assms(8) by simp
  from backfill_turns [OF t c assms(9)] obtain msgs1
    where b: "backfill now (Suc 0) (turns @ [?turn]) = Inr msgs1" and m: "list_all encodable_json msgs1"
    by blast
  from m have "encodable_json (JArr msgs1)" by simp
  from json_dump_encodable [OF this]
  have "save_session now 1 (JArr (turns @ [?turn])) ?files1
      = (Inr (), ?files1(SESSION_FILE \<mapsto> Text (json_dumps (JArr msgs1))))"
    by (simp add: save_session_def backfill_session_def b)
  then have "chat u create_completion now message files
      = (Inr (reply_json (model_error_reply e)), ?files1(SESSION_FILE \<mapsto> Text (json_dumps (JArr msgs1))))"
    using assms(1,4,5) k l
    by (simp add: chat_def Let_def model_reply_def py_append_def sentences_of_strings model_error_reply_def
          del: sentences_of.simps)
  then show ?thesis
    by (simp add: reply_json_def model_error_reply_def)
qed

text \<open>
  The witness: a corpus of two sentences that share no word with the utterance, and a
  session log that holds one earlier turn.
\<close>

theorem chat_model_error_witness:
  "\<exists>files2. chat ascii_ucd (\<lambda>p. Inl (str ''connection refused'')) (\<lambda>n. str ''2025-01-02T00:00:00'')
       (str '' hi there '')
       (Map.empty
          (KNOWLEDGE_FILE \<mapsto> Text (json_dumps (JArr (map JStr
              [str ''The sky is blue.'', str ''Blue whales sing in the sea.'']))),
           SESSION_FILE \<mapsto> Text (json_dumps (JArr
              [JObj [(str ''user'', JStr (str ''hi'')), (str ''bot'', JStr (str ''Hello!'')),
                     (str ''timestamp'', JStr (str ''2025-01-01T00:00:00''))]]))))
     = (Inr (JObj [(str ''from'', JStr (str ''IA'')),
                   (str ''reply'', JStr ([9888, 65039] @ str '' Model error: '' @ str ''connection refused''))]),
        files2)"
proof -
  let ?corpus = "[str ''The sky is blue.'', str ''Blue whales sing in the sea.'']"
  let ?turn = "JObj [(str ''user'', JStr (str ''hi'')), (str ''bot'', JStr (str ''Hello!'')),
                     (str ''timestamp'', JStr (str ''2025-01-01T00:00:00''))]"
  let ?files = "Map.empty (KNOWLEDGE_FILE \<mapsto> Text (json_dumps (JArr (map JStr ?corpus))),
                           SESSION_FILE \<mapsto> Text (json_dumps (JArr [?turn])))"
  have s: "strip (str '' hi there '') \<noteq> []"
    by (simp add: str_def strip_def isspace_def)
  have em: "encodable (str '' hi there '')" by (rule encodable_str)
  have k: "stored_corpus ?files = Some ?corpus"
    using store_paths_differ by (intro stored_corpus_saved) (simp del: list.map)
  have m: "best_knowledge_match ascii_ucd (strip (str '' hi there '')) ?corpus = None"
    by (simp add: str_def strip_def isspace_def best_knowledge_match_def word_set_def ascii_ucd_def
          ascii_lower_char_def ascii_is_word_def)
  have ee: "encodable (str ''connection refused'')" by (rule encodable_str)
  have p: "json_loads (json_dumps (JArr [?turn])) = Some (JArr [?turn])"
    by (simp add: str_def dumps_eval json_eval)
  have l: "stored_session ?files = Some [?turn]"
    by (simp add: stored_session_def p)
  have t: "list_all encodable_json [?turn]"
    by (simp add: encodable_str)
  have n: "\<forall>n. encodable ((\<lambda>n. str ''2025-01-02T00:00:00'') n)"
    by (simp add: encodable_str)
  show ?thesis
    by (rule chat_model_error [OF s em k m _ ee l t n]) simp
qed

text \<open>
  The claim as stated fails: the exchange does not always produce a reply. The utterance
  made of U+D800 and \<open> hi\<close> is not empty and matches nothing in the empty corpus, and the
  completion service raises; the error is caught, but writing the turn to the session file
  raises \<open>UnicodeEncodeError\<close>, outside the \<open>try\<close>, and leaves the session file cut off
  after \<open>"user": \<close>. And when the session file holds \<open>{}\<close>, appending the turn raises
  \<open>AttributeError\<close>.
\<close>

theorem chat_model_error_counterexample:
  "strip (55296 # str '' hi'') \<noteq> []
   \<and> best_knowledge_match ascii_ucd (strip (55296 # str '' hi'')) [] = None
   \<and> chat ascii_ucd (\<lambda>p. Inl (str ''connection refused'')) (\<lambda>n. str ''2025-01-02T00:00:00'')
         (55296 # str '' hi'') Map.empty
       = (Inl UnicodeEncodeError,
          Map.empty(KNOWLEDGE_FILE \<mapsto> Text (str ''[]''),
                    SESSION_FILE \<mapsto> Text ([91, 10, 32, 32, 123, 10, 32, 32, 32, 32, 34] @ str ''user'' @ [34, 58, 32])))
   \<and> fst (chat ascii_ucd (\<lambda>p. Inl (str ''connection refused'')) (\<lambda>n. str ''2025-01-02T00:00:00'')
         (str ''hi'') (Map.empty(SESSION_FILE \<mapsto> Text (str ''{}''))))
       = Inl AttributeError"
proof -
  let ?msg = "55296 # str '' hi''"
  let ?now = "\<lambda>n::nat. str ''2025-01-02T00:00:00''"
  let ?llm = "\<lambda>p::pystr. (Inl (str ''connection refused'') :: pystr + pystr)"
  have st: "strip ?msg = ?msg"
    by (simp add: str_def strip_def isspace_def)
  have ne: "?msg \<noteq> []" by simp
  have bm: "best_knowledge_match u q [] = None" for u q
    by (simp add: best_knowledge_match_def)
  have ls: "load_session (Map.empty(KNOWLEDGE_FILE \<mapsto> Text (str ''[]''))) = Inr (JArr [])"
    using store_paths_differ by (simp add: load_session_def)
  have tk: "py_contains (JObj [(str ''user'', a), (str ''bot'', b), (timestamp_key, c)]) timestamp_key = Inr True"
    for a b c by simp
  have sv: "save_session ?now (Suc 0)
        (JArr [JObj [(str ''user'', JStr ?msg),
                     (str ''bot'', JStr (model_error_reply (str ''connection refused''))),
                     (timestamp_key, JStr (str ''2025-01-02T00:00:00''))]]) files
      = (Inl UnicodeEncodeError,
         files(SESSION_FILE \<mapsto> Text ([91, 10, 32, 32, 123, 10, 32, 32, 32, 32, 34] @ str ''user'' @ [34, 58, 32])))"
    for files
    by (simp add: save_session_def backfill_session_def tk del: py_contains.simps)
       (simp add: json_dump_def str_def timestamp_key_def model_error_reply_def newline_indent_eval
          encode_basestring_def escape_char_def encodable_char_def)
  have one: "chat ascii_ucd ?llm ?now ?msg Map.empty
       = (Inl UnicodeEncodeError,
          Map.empty(KNOWLEDGE_FILE \<mapsto> Text (str ''[]''),
                    SESSION_FILE \<mapsto> Text ([91, 10, 32, 32, 123, 10, 32, 32, 32, 32, 34] @ str ''user'' @ [34, 58, 32])))"
    unfolding chat_def st
    by (simp add: Let_def load_knowledge_absent bm model_reply_def ls py_append_def sv)
  have p: "json_loads (str ''{}'') = Some (JObj [])"
    by (simp add: str_def json_eval)
  have st2: "strip (str ''hi'') = str ''hi''"
    by (simp add: str_def strip_def isspace_def)
  have ne2: "str ''hi'' \<noteq> []" by (simp add: str_def)
  have lk: "load_knowledge (Map.empty(SESSION_FILE \<mapsto> Text (str ''{}'')))
      = (Inr (JArr (map JStr [])),
         Map.empty(SESSION_FILE \<mapsto> Text (str ''{}''), KNOWLEDGE_FILE \<mapsto> Text (str ''[]'')))"
    using store_paths_differ by (intro load_knowledge_absent) simp
  have ls2: "load_session (Map.empty(SESSION_FILE \<mapsto> Text (str ''{}''), KNOWLEDGE_FILE \<mapsto> Text (str ''[]'')))
      = Inr (JObj [])"
    using store_paths_differ by (simp add: load_session_def read_text_def p)
  have two: "fst (chat ascii_ucd ?llm ?now (str ''hi'') (Map.empty(SESSION_FILE \<mapsto> Text (str ''{}''))))
       = Inl AttributeError"
    unfolding chat_def st2 using ne2
    by (simp add: Let_def lk bm model_reply_def ls2 py_append_def)
  from st ne bm one two show ?thesis by simp
qed

section \<open>The upload route\<close>

text \<open>
  Claim C9. For every upload that carries a file (a part with a filename that is not
  empty): the filename is lowercased before its extension is taken, and the upload is
  rejected with status 403 exactly when that extension is not one of \<open>.txt\<close>, \<open>.py\<close>,
  \<open>.pdf\<close>. So \<open>NOTES.TXT\<close> is accepted.
\<close>

theorem upload_extension_check:
  "name \<noteq> [] \<Longrightarrow>
     status (fst (upload_file u get_text (Some (name, data)) save_error files)) = 403
       \<longleftrightarrow> snd (splitext (str_lower u name)) \<notin> ALLOWED_EXTENSIONS"
  by (auto simp: upload_file_def Let_def split: option.splits sum.splits prod.splits)

theorem upload_extension_check_witness:
  "str ''NOTES.TXT'' \<noteq> []
   \<and> snd (splitext (str_lower ascii_ucd (str ''NOTES.TXT''))) = str ''.txt''
   \<and> status (fst (upload_file ascii_ucd (\<lambda>t. t) (Some (str ''NOTES.TXT'', Text (str ''Hello world.''))) None Map.empty)) \<noteq> 403
   \<and> snd (splitext (str_lower ascii_ucd (str ''setup.EXE''))) = str ''.exe''
   \<and> status (fst (upload_file ascii_ucd (\<lambda>t. t) (Some (str ''setup.EXE'', Text (str ''Hello world.''))) None Map.empty)) = 403"
proof -
  have n1: "str ''NOTES.TXT'' \<noteq> []" and n2: "str ''setup.EXE'' \<noteq> []"
    by (simp_all add: str_def)
  have e1: "snd (splitext (str_lower ascii_ucd (str ''NOTES.TXT''))) = str ''.txt''"
    by (simp add: str_def ascii_ucd_def ascii_lower_char_def splitext_def rfind_def)
  have e2: "snd (splitext (str_lower ascii_ucd (str ''setup.EXE''))) = str ''.exe''"
    by (simp add: str_def ascii_ucd_def ascii_lower_char_def splitext_def rfind_def)
  have a1: "str ''.txt'' \<in> ALLOWED_EXTENSIONS"
    by (simp add: ALLOWED_EXTENSIONS_def)
  have a2: "str ''.exe'' \<notin> ALLOWED_EXTENSIONS"
    by (simp add: ALLOWED_EXTENSIONS_def str_def)
  from upload_extension_check [OF n1, of ascii_ucd "\<lambda>t. t" "Text (str ''Hello world.'')" None Map.empty] e1 a1
  have s1: "status (fst (upload_file ascii_ucd (\<lambda>t. t) (Some (str ''NOTES.TXT'', Text (str ''Hello world.''))) None Map.empty)) \<noteq> 403"
    by simp
  from upload_extension_check [OF n2, of ascii_ucd "\<lambda>t. t" "Text (str ''Hello world.'')" None Map.empty] e2 a2
  have s2: "status (fst (upload_file ascii_ucd (\<lambda>t. t) (Some (str ''setup.EXE'', Text (str ''Hello world.''))) None Map.empty)) = 403"
    by simp
  from n1 e1 s1 e2 s2 show ?thesis by (intro conjI)
qed

section \<open>Archiving the session\<close>

lemma archive_name_differs:
  "path_join SESSIONS_DIR (str ''session_'' @ timestamp @ str ''.json'') \<noteq> SESSION_FILE"
  by (simp add: SESSION_FILE_def SESSIONS_DIR_def path_join_def str_def)

text \<open>
  Claim C10. \<open>save_session_timestamped\<close> never writes to the current session file: for
  every content of the files, every clock and every archival timestamp, the current
  session file holds after archiving exactly what it held before, also when archiving
  raises. So the session log that \<open>load_session\<close> reads is the same before and after: a
  timestamp that archiving backfills appears only in the archived copy.
\<close>

theorem archive_keeps_current_session:
  "snd (save_session_timestamped now timestamp files) SESSION_FILE = files SESSION_FILE
   \<and> load_session (snd (save_session_timestamped now timestamp files)) = load_session files"
proof -
  have same: "snd (save_session_timestamped now timestamp files) SESSION_FILE = files SESSION_FILE"
    using archive_name_differs [of timestamp]
    by (auto simp: save_session_timestamped_def Let_def json_dump_def split: sum.splits)
  then show ?thesis
    by (simp add: load_session_def read_text_def)
qed

text \<open>
  An example: the current log holds one turn without a timestamp. The archived copy has
  the timestamp; the current file is unchanged.
\<close>

lemma archive_example:
  "fst (save_session_timestamped (\<lambda>n. str ''2025-01-01T00:00:00'') (str ''20250101_000000'')
          (Map.empty(SESSION_FILE \<mapsto> Text (str ''[{}]''))))
     = Inr (str ''sessions/session_20250101_000000.json'')
   \<and> snd (save_session_timestamped (\<lambda>n. str ''2025-01-01T00:00:00'') (str ''20250101_000000'')
          (Map.empty(SESSION_FILE \<mapsto> Text (str ''[{}]'')))) (str ''sessions/session_20250101_000000.json'')
     = Some (Text (json_dumps (JArr [JObj [(str ''timestamp'', JStr (str ''2025-01-01T00:00:00''))]])))
   \<and> snd (save_session_timestamped (\<lambda>n. str ''2025-01-01T00:00:00'') (str ''20250101_000000'')
          (Map.empty(SESSION_FILE \<mapsto> Text (str ''[{}]'')))) SESSION_FILE
     = Some (Text (str ''[{}]''))"
proof -
  have p: "json_loads (str ''[{}]'') = Some (JArr [JObj []])"
    by (simp add: str_def json_eval)
  have l: "load_session (Map.empty(SESSION_FILE \<mapsto> Text (str ''[{}]''))) = Inr (JArr [JObj []])"
    by (simp add: load_session_def read_text_def p)
  have b: "backfill_session (\<lambda>n. str ''2025-01-01T00:00:00'') 0 (JArr [JObj []])
      = Inr (JArr [JObj [(str ''timestamp'', JStr (str ''2025-01-01T00:00:00''))]])"
    by (simp add: backfill_session_def timestamp_key_def)
  have n: "path_join SESSIONS_DIR (str ''session_'' @ str ''20250101_000000'' @ str ''.json'')
      = str ''sessions/session_20250101_000000.json''"
    by (simp add: path_join_def SESSIONS_DIR_def str_def)
  have d: "str ''sessions/session_20250101_000000.json'' \<noteq> SESSION_FILE"
    using archive_name_differs [of "str ''20250101_000000''"] n by simp
  have "encodable_json (JArr [JObj [(str ''timestamp'', JStr (str ''2025-01-01T00:00:00''))]])"
    by (simp add: encodable_str)
  note w = json_dump_encodable [OF this]
  show ?thesis
    using d by (simp add: save_session_timestamped_def l b n w Let_def)
qed

end
